theory Spec2Isabelle
  imports Main "HOL-Library.Word" "HOL-Library.Sublist" "HOL-Library.Multiset"
begin

section \<open>srccat: data model\<close>

text \<open>
  The program is \<^verbatim>\<open>src/main.go\<close>. A Go \<^verbatim>\<open>string\<close> and a \<^verbatim>\<open>[]byte\<close> are both
  sequences of bytes; both are modelled as \<^typ>\<open>string\<close> (a list of 8-bit characters), so
  the conversion \<^verbatim>\<open>string(content)\<close> is the identity. The zero value of a Go string is
  the empty string; with the tag \<^verbatim>\<open>omitempty\<close> an empty \<^verbatim>\<open>Content\<close> is left out of the JSON.
\<close>

record FileContent =
  Path :: string
  Content :: string

text \<open>\<^verbatim>\<open>maxFileSize = 1 * 1024 * 1024\<close>; \<^verbatim>\<open>info.Size()\<close> is an \<^verbatim>\<open>int64\<close>, read signed.\<close>

definition maxFileSize :: int where
  "maxFileSize = 1 * 1024 * 1024"

text \<open>
  Every error value the program builds or passes on. The texts of errors that come from
  the operating system or a library are kept as opaque strings.
\<close>

datatype error =
    DirectoryDoesNotExist
  | InvalidFormat
  | InvalidExcludePattern string string
  | OpenRepositoryFailed string
  | GetWorktreeFailed string
  | RelativePathFailed string
  | FilesystemError string
  | NilFileInfo
  | WalkingThePath string error

subsection \<open>The world outside the program\<close>

text \<open>
  The directory tree as \<^verbatim>\<open>filepath.Walk\<close> sees it through \<^verbatim>\<open>os.Lstat\<close> and the directory
  listing: an entry that is not a directory (a regular file, a symbolic link, a device),
  a directory with its entries in the order the listing returns them (sorted by name), a
  directory whose listing fails, and an entry whose \<^verbatim>\<open>Lstat\<close> fails.
\<close>

datatype fnode =
    File
  | Dir "(string \<times> fnode) list"
  | DirUnreadable string
  | NoLstat string

fun isDir :: "fnode \<Rightarrow> bool" where
  "isDir (Dir _) = True"
| "isDir (DirUnreadable _) = True"
| "isDir _ = False"

text \<open>
  The library and system calls whose results the program only consumes are parameters:
  \<^verbatim>\<open>os.Stat\<close> (an error text or the size), \<^verbatim>\<open>os.ReadFile\<close> (an error text or the bytes),
  \<^verbatim>\<open>filepath.Join\<close>, \<^verbatim>\<open>filepath.Rel\<close>, \<^verbatim>\<open>glob.Compile\<close> (an error text or the compiled
  pattern's \<^verbatim>\<open>Match\<close>), \<^verbatim>\<open>git.PlainOpen\<close> with \<^verbatim>\<open>Worktree\<close>, and \<^verbatim>\<open>gitignore.NewMatcher\<close>
  (the matcher's \<^verbatim>\<open>Match(path []string, isDir bool)\<close>). A gitignore pattern is kept as an
  opaque text that only \<^verbatim>\<open>NewMatcher\<close> reads. The tree is not modified during a run, so
  each call is a function of its arguments.
\<close>

type_synonym glob = "string \<Rightarrow> bool"

type_synonym gitignore_Matcher = "string list \<Rightarrow> bool \<Rightarrow> bool"

type_synonym gitignore_Pattern = string

datatype git_repository =
    ErrRepositoryNotExists
  | OpenError string
  | Repository "string + gitignore_Pattern list"

record env =
  os_Stat :: "string \<Rightarrow> string + 64 word"
  os_ReadFile :: "string \<Rightarrow> string + string"
  os_Stat_IsNotExist :: "string \<Rightarrow> bool"
  filepath_Join :: "string \<Rightarrow> string \<Rightarrow> string"
  filepath_Rel :: "string \<Rightarrow> string \<Rightarrow> string + string"
  glob_Compile :: "string \<Rightarrow> string + glob"
  git_PlainOpen :: "string \<Rightarrow> git_repository"
  gitignore_NewMatcher :: "gitignore_Pattern list \<Rightarrow> gitignore_Matcher"

section \<open>The exclusion evaluator and the safety classifier\<close>

definition excludedDirs :: "string list" where
  "excludedDirs =
     [''.git'', ''node_modules'', ''build'', ''dist'', ''out'', ''.cache'', ''.tmp'',
      ''.vscode'', ''.idea'', ''.next'', ''public'', ''.terraform'']"

definition excludedPatterns :: "string list" where
  "excludedPatterns =
     [''.json'', ''.log'', ''.bak'', ''~'', ''.DS_Store'',
      ''package-lock.json'', ''yarn.lock'', ''.d.ts'', ''config.mjs'',
      ''.lock.hcl'', ''.ico'', ''.tfstate'',
      ''.backup'', ''.pptx'', ''.ppt'', ''.doc'', ''.docx'', ''.xls'', ''.xlsx'', ''.mod'', ''.sum'']"

text \<open>
  \<^verbatim>\<open>shouldExclude(name, relativePath, matcher)\<close>; the global \<^verbatim>\<open>customExcludePatterns\<close> is the
  first argument. Each loop returns true at the first hit, which is \<^const>\<open>list_ex\<close>.
  \<^verbatim>\<open>os.PathSeparator\<close> is the slash.
\<close>

definition shouldExclude :: "glob list \<Rightarrow> gitignore_Matcher \<Rightarrow> string \<Rightarrow> string \<Rightarrow> bool" where
  "shouldExclude customExcludePatterns matcher name relativePath =
     (if list_ex (\<lambda>dir. name = dir \<or> prefix (dir @ ''/'') relativePath) excludedDirs then True
      else if list_ex (\<lambda>pattern. suffix pattern name) excludedPatterns then True
      else if prefix ''.env'' name then True
      else if name = ''.gitignore'' then True
      else if list_ex (\<lambda>pattern. pattern relativePath) customExcludePatterns then True
      else matcher [relativePath] False)"

definition isBinary :: "string \<Rightarrow> bool" where
  "isBinary content =
     (let content = (if length content > 1024 then take 1024 content else content)
      in list_ex (\<lambda>b. b = CHR 0x00) content)"

section \<open>The file processor\<close>

text \<open>
  \<^verbatim>\<open>processFile\<close> runs as a goroutine. What it does is the sequence of its effects, in
  program order: the system calls it makes, the line it logs, the record it appends to
  the shared slice under the mutex, and the send on \<^verbatim>\<open>progressChan\<close>. Each \<^verbatim>\<open>return\<close> of the
  source ends the sequence. The scheduler below interleaves these sequences.
\<close>

datatype logmsg =
    ErrorGettingFileInfo string string
  | SkippingLargeFile string "64 word"
  | FailedToReadFile string string

datatype action =
    Stat string
  | ReadFile string
  | Log logmsg
  | Append FileContent
  | Send string

definition processFile :: "env \<Rightarrow> string \<Rightarrow> string \<Rightarrow> bool \<Rightarrow> action list" where
  "processFile os path relativePath readContent =
     (case os_Stat os path of
        Inl err \<Rightarrow> [Stat path, Log (ErrorGettingFileInfo path err)]
      | Inr sz \<Rightarrow>
          if maxFileSize < sint sz then [Stat path, Log (SkippingLargeFile path sz)]
          else
            let fileContent = \<lparr>Path = relativePath, Content = []\<rparr> in
            if readContent then
              (case os_ReadFile os path of
                 Inl err \<Rightarrow> [Stat path, ReadFile path, Log (FailedToReadFile path err)]
               | Inr content \<Rightarrow>
                   let fileContent =
                     (if \<not> isBinary content then fileContent\<lparr>Content := content\<rparr>
                      else fileContent)
                   in [Stat path, ReadFile path, Append fileContent, Send relativePath])
            else [Stat path, Append fileContent, Send relativePath])"

section \<open>The traversal\<close>

text \<open>
  What a walk function returns: \<^verbatim>\<open>nil\<close>, \<^verbatim>\<open>filepath.SkipDir\<close> or another error. The walk
  records each call of the walk function; the walk function records each goroutine it
  starts with \<^verbatim>\<open>go func() { ... processFile(path, relativePath, ...) }()\<close>.
\<close>

datatype walk_ret = RNil | SkipDir | Failed error

datatype wevent = Call string | Go string string

text \<open>
  \<^verbatim>\<open>filepath.Walk\<close> of the Go standard library, from its source: an entry that is not a
  directory is passed to the walk function; a directory is listed first and passed to the
  walk function with the listing's error, and is entered only when both are \<^verbatim>\<open>nil\<close>; in the
  loop over the names an error other than \<^verbatim>\<open>SkipDir\<close> on a directory ends the walk, and an
  entry whose \<^verbatim>\<open>Lstat\<close> fails is passed to the walk function with that error and no info.
  The walk function gets the path, the info (base name and \<^verbatim>\<open>IsDir\<close>) and the error.
  At the root \<^verbatim>\<open>SkipDir\<close> becomes \<^verbatim>\<open>nil\<close>. (\<^verbatim>\<open>SkipAll\<close> is left out: the walk function of
  \<^verbatim>\<open>listFiles\<close> never returns it.)
\<close>

type_synonym walk_func = "string \<Rightarrow> (string \<times> bool) option \<Rightarrow> string option \<Rightarrow> walk_ret \<times> wevent list"

definition call :: "walk_func \<Rightarrow> string \<Rightarrow> (string \<times> bool) option \<Rightarrow> string option \<Rightarrow> walk_ret \<times> wevent list" where
  "call fn path info err = (case fn path info err of (r, evs) \<Rightarrow> (r, Call path # evs))"

fun walk :: "walk_func \<Rightarrow> (string \<Rightarrow> string \<Rightarrow> string) \<Rightarrow> string \<Rightarrow> string \<Rightarrow> fnode \<Rightarrow> walk_ret \<times> wevent list"
and walk_names :: "walk_func \<Rightarrow> (string \<Rightarrow> string \<Rightarrow> string) \<Rightarrow> string \<Rightarrow> (string \<times> fnode) list \<Rightarrow> walk_ret \<times> wevent list" where
  "walk fn join path name File = call fn path (Some (name, False)) None"
| "walk fn join path name (NoLstat e) = call fn path None (Some e)"
| "walk fn join path name (DirUnreadable e) = call fn path (Some (name, True)) (Some e)"
| "walk fn join path name (Dir entries) =
     (case call fn path (Some (name, True)) None of
        (RNil, evs) \<Rightarrow>
          (case walk_names fn join path entries of (r, evs') \<Rightarrow> (r, evs @ evs'))
      | (r, evs) \<Rightarrow> (r, evs))"
| "walk_names fn join path [] = (RNil, [])"
| "walk_names fn join path ((name, node) # rest) =
     (case walk fn join (join path name) name node of
        (r, evs) \<Rightarrow>
          if (case node of
                NoLstat _ \<Rightarrow> r \<noteq> RNil \<and> r \<noteq> SkipDir
              | _ \<Rightarrow> r \<noteq> RNil \<and> (\<not> isDir node \<or> r \<noteq> SkipDir))
          then (r, evs)
          else (case walk_names fn join path rest of (r', evs') \<Rightarrow> (r', evs @ evs')))"

definition Walk :: "walk_func \<Rightarrow> (string \<Rightarrow> string \<Rightarrow> string) \<Rightarrow> string \<Rightarrow> string \<Rightarrow> fnode \<Rightarrow> error option \<times> wevent list" where
  "Walk fn join root name node =
     (case walk fn join root name node of
        (RNil, evs) \<Rightarrow> (None, evs)
      | (SkipDir, evs) \<Rightarrow> (None, evs)
      | (Failed e, evs) \<Rightarrow> (Some e, evs))"

text \<open>
  The walk function of \<^verbatim>\<open>listFiles\<close> (the closure passed to \<^verbatim>\<open>filepath.Walk\<close>). A \<^verbatim>\<open>nil\<close>
  info without an error does not occur; Go would panic on \<^verbatim>\<open>info.Name()\<close>.
\<close>

definition walkFn :: "env \<Rightarrow> glob list \<Rightarrow> gitignore_Matcher \<Rightarrow> string \<Rightarrow> walk_func" where
  "walkFn os customExcludePatterns matcher baseDir path info err =
     (case err of
        Some e \<Rightarrow> (Failed (FilesystemError e), [])
      | None \<Rightarrow>
          (case filepath_Rel os baseDir path of
             Inl e \<Rightarrow> (Failed (RelativePathFailed e), [])
           | Inr relativePath \<Rightarrow>
               (case info of
                  None \<Rightarrow> (Failed NilFileInfo, [])
                | Some (name, isdir) \<Rightarrow>
                    if shouldExclude customExcludePatterns matcher name relativePath then
                      (if isdir then (SkipDir, []) else (RNil, []))
                    else if \<not> isdir then (RNil, [Go path relativePath])
                    else (RNil, []))))"

section \<open>Output\<close>

text \<open>
  \<^verbatim>\<open>json.NewEncoder(os.Stdout).Encode(files)\<close> is kept structured: a \<^verbatim>\<open>nil\<close> slice (no
  record was ever appended) encodes as \<^verbatim>\<open>null\<close>, otherwise an array of objects whose
  \<^verbatim>\<open>content\<close> member is left out when the string is empty (\<^verbatim>\<open>omitempty\<close>). The text
  formats are the strings \<^verbatim>\<open>fmt.Printf\<close> writes. A failed write to the standard output is
  left out.
\<close>

datatype json = JNull | JArray "(string \<times> string option) list"

datatype written = Printed string | Encoded json

definition outputJSON :: "FileContent list \<Rightarrow> written" where
  "outputJSON files =
     Encoded (if files = [] then JNull
              else JArray (map (\<lambda>file. (Path file, if Content file = [] then None else Some (Content file))) files))"

definition outputText :: "FileContent list \<Rightarrow> written" where
  "outputText files =
     Printed (concat (map (\<lambda>file.
        [CHR 0x0A] @ ''```'' @ Path file @ [CHR 0x0A] @ Content file @ [CHR 0x0A] @ ''```'' @ [CHR 0x0A]) files))"

definition outputList :: "FileContent list \<Rightarrow> written" where
  "outputList files = Printed (concat (map (\<lambda>file. ''- '' @ Path file @ [CHR 0x0A]) files))"

definition render :: "string \<Rightarrow> FileContent list \<Rightarrow> written" where
  "render format files =
     (if format = ''json'' then outputJSON files
      else if format = ''list'' then outputList files
      else outputText files)"

section \<open>The concurrent run of listFiles\<close>

text \<open>
  The state of a run. The coordinator (the goroutine of \<^verbatim>\<open>listFiles\<close>) is inside
  \<^verbatim>\<open>filepath.Walk\<close> with the walk's remaining events and its result, or at \<^verbatim>\<open>wg.Wait()\<close>, or
  past \<^verbatim>\<open>close(progressChan)\<close> at \<^verbatim>\<open><-doneChan\<close>, or has returned. Every worker is the rest
  of its \<^verbatim>\<open>processFile\<close>; the empty rest is a finished worker (\<^verbatim>\<open>wg.Done()\<close>). The reporter
  (\<^verbatim>\<open>showProgress\<close>) is at the receive of its \<^verbatim>\<open>range\<close> loop, in the loop body, or has left.
  \<^verbatim>\<open>stderr\<close> holds the counts of the progress lines (the elapsed time is left out).
\<close>

datatype coordinator =
    Walking "wevent list" "error option"
  | Waiting
  | Draining
  | Returned "error option"

datatype reporter_pc = NotStarted | Receiving | Counting | Exited

datatype progress = Processed nat | ProcessedFinal nat

record state =
  coord :: coordinator
  workers :: "action list list"
  files :: "FileContent list"
  reporter :: reporter_pc
  rcount :: nat
  visited :: "string list"
  performed :: "action list"
  stderr :: "progress list"
  stdout :: "written option"

fun running :: "coordinator \<Rightarrow> bool" where
  "running (Returned _) = False"
| "running _ = True"

text \<open>
  The coordinator's next step: a call of the walk function, a \<^verbatim>\<open>go\<close> statement, the end of
  the walk (an error returns at once, without closing the channel), \<^verbatim>\<open>wg.Wait()\<close> passing
  once every worker has finished, and the receive from \<^verbatim>\<open>doneChan\<close> followed by the output.
\<close>

fun coord_next :: "(string \<Rightarrow> string \<Rightarrow> action list) \<Rightarrow> string \<Rightarrow> coordinator \<Rightarrow> state \<Rightarrow> state option" where
  "coord_next body format (Walking (Call p # evs) r) s =
     Some (s\<lparr>coord := Walking evs r, visited := visited s @ [p]\<rparr>)"
| "coord_next body format (Walking (Go p rel # evs) r) s =
     Some (s\<lparr>coord := Walking evs r, workers := workers s @ [body p rel]\<rparr>)"
| "coord_next body format (Walking [] None) s = Some (s\<lparr>coord := Waiting\<rparr>)"
| "coord_next body format (Walking [] (Some e)) s = Some (s\<lparr>coord := Returned (Some e)\<rparr>)"
| "coord_next body format Waiting s =
     (if list_all (\<lambda>w. w = []) (workers s) then Some (s\<lparr>coord := Draining\<rparr>) else None)"
| "coord_next body format Draining s =
     (if reporter s = Exited
      then Some (s\<lparr>coord := Returned None, stdout := Some (render format (files s))\<rparr>)
      else None)"
| "coord_next body format (Returned r) s = None"

text \<open>
  Worker \<open>i\<close>'s next step. \<^verbatim>\<open>progressChan\<close> is made by \<^verbatim>\<open>make(chan string)\<close>: it has no
  buffer, so a send completes only together with a receive, that is, when the reporter
  is at the receive of its loop. The append runs under the mutex and is one step.
\<close>

definition worker_next :: "nat \<Rightarrow> state \<Rightarrow> state option" where
  "worker_next i s =
     (if \<not> running (coord s) \<or> length (workers s) \<le> i then None
      else
        (case workers s ! i of
           [] \<Rightarrow> None
         | a # rest \<Rightarrow>
             let s' = s\<lparr>workers := (workers s)[i := rest], performed := performed s @ [a]\<rparr> in
             (case a of
                Append r \<Rightarrow> Some (s'\<lparr>files := files s @ [r]\<rparr>)
              | Send rel \<Rightarrow> if reporter s = Receiving then Some (s'\<lparr>reporter := Counting\<rparr>) else None
              | _ \<Rightarrow> Some s')))"

text \<open>
  The reporter's next step: the loop body after a receive (\<^verbatim>\<open>count++\<close>, and a progress
  line on every 100th), or leaving the loop once the channel is closed, with the final
  line and the send on \<^verbatim>\<open>doneChan\<close>.
\<close>

definition reporter_next :: "state \<Rightarrow> state option" where
  "reporter_next s =
     (if \<not> running (coord s) then None
      else
        (case reporter s of
           Counting \<Rightarrow>
             Some (s\<lparr>reporter := Receiving, rcount := rcount s + 1,
                     stderr := stderr s @ (if (rcount s + 1) mod 100 = 0 then [Processed (rcount s + 1)] else [])\<rparr>)
         | Receiving \<Rightarrow>
             if coord s = Draining
             then Some (s\<lparr>reporter := Exited, stderr := stderr s @ [ProcessedFinal (rcount s)]\<rparr>)
             else None
         | _ \<Rightarrow> None))"

inductive step :: "(string \<Rightarrow> string \<Rightarrow> action list) \<Rightarrow> string \<Rightarrow> state \<Rightarrow> state \<Rightarrow> bool"
  for body :: "string \<Rightarrow> string \<Rightarrow> action list" and format :: string where
  coordinator: "coord_next body format (coord s) s = Some s' \<Longrightarrow> step body format s s'"
| worker: "worker_next i s = Some s' \<Longrightarrow> step body format s s'"
| reporter: "reporter_next s = Some s' \<Longrightarrow> step body format s s'"

definition idle :: state where
  "idle = \<lparr>coord = Waiting, workers = [], files = [], reporter = NotStarted, rcount = 0,
           visited = [], performed = [], stderr = [], stdout = None\<rparr>"

definition listFiles_init :: "error option \<Rightarrow> wevent list \<Rightarrow> state" where
  "listFiles_init err evs = idle\<lparr>coord := Walking evs err, reporter := Receiving\<rparr>"

text \<open>The start of \<^verbatim>\<open>listFiles\<close>: the repository, its worktree's excludes, the matcher.\<close>

definition openMatcher :: "env \<Rightarrow> string \<Rightarrow> error + gitignore_Matcher" where
  "openMatcher os baseDir =
     (case git_PlainOpen os baseDir of
        OpenError e \<Rightarrow> Inl (OpenRepositoryFailed e)
      | ErrRepositoryNotExists \<Rightarrow> Inr (gitignore_NewMatcher os [])
      | Repository wt \<Rightarrow>
          (case wt of
             Inl e \<Rightarrow> Inl (GetWorktreeFailed e)
           | Inr excludes \<Rightarrow> Inr (gitignore_NewMatcher os excludes)))"

text \<open>
  The events of the walk that \<^verbatim>\<open>listFiles\<close> starts, and the body of the goroutine it
  starts for a file: \<^verbatim>\<open>processFile(path, relativePath, &files, &mu, progressChan, format != "list")\<close>.
\<close>

definition listFiles_walk :: "env \<Rightarrow> glob list \<Rightarrow> gitignore_Matcher \<Rightarrow> string \<Rightarrow> fnode \<Rightarrow> string \<Rightarrow> error option \<times> wevent list" where
  "listFiles_walk os customExcludePatterns matcher rootName tree baseDir =
     Walk (walkFn os customExcludePatterns matcher baseDir) (filepath_Join os) baseDir rootName tree"

definition goroutine :: "env \<Rightarrow> string \<Rightarrow> string \<Rightarrow> string \<Rightarrow> action list" where
  "goroutine os format path relativePath = processFile os path relativePath (format \<noteq> ''list'')"

text \<open>
  \<^verbatim>\<open>listFiles(baseDir, format)\<close> on the tree \<open>tree\<close> whose root has the base name
  \<open>rootName\<close>: the states in which it can return.
\<close>

inductive listFiles :: "env \<Rightarrow> glob list \<Rightarrow> string \<Rightarrow> fnode \<Rightarrow> string \<Rightarrow> string \<Rightarrow> state \<Rightarrow> bool"
  for os :: env and customExcludePatterns :: "glob list" and rootName :: string and tree :: fnode
    and baseDir :: string and format :: string where
  no_matcher:
    "openMatcher os baseDir = Inl e \<Longrightarrow>
     listFiles os customExcludePatterns rootName tree baseDir format (idle\<lparr>coord := Returned (Some e)\<rparr>)"
| ran:
    "openMatcher os baseDir = Inr matcher \<Longrightarrow>
     listFiles_walk os customExcludePatterns matcher rootName tree baseDir = (err, evs) \<Longrightarrow>
     (step (goroutine os format) format)\<^sup>*\<^sup>*
        (listFiles_init (map_option (WalkingThePath baseDir) err) evs) s \<Longrightarrow>
     \<not> running (coord s) \<Longrightarrow>
     listFiles os customExcludePatterns rootName tree baseDir format s"

section \<open>main\<close>

fun compilePatterns :: "env \<Rightarrow> string list \<Rightarrow> glob list \<Rightarrow> error + glob list" where
  "compilePatterns os [] customExcludePatterns = Inr customExcludePatterns"
| "compilePatterns os (pattern # rest) customExcludePatterns =
     (case glob_Compile os pattern of
        Inl err \<Rightarrow> Inl (InvalidExcludePattern pattern err)
      | Inr g \<Rightarrow> compilePatterns os rest (customExcludePatterns @ [g]))"

text \<open>
  The \<^verbatim>\<open>Action\<close> of the command up to its last line: an error, or the arguments of the call
  \<^verbatim>\<open>listFiles(directory, format)\<close> together with the global \<^verbatim>\<open>customExcludePatterns\<close>.
\<close>

definition Action :: "env \<Rightarrow> string \<Rightarrow> string \<Rightarrow> bool \<Rightarrow> string list \<Rightarrow> error + (string \<times> string \<times> glob list)" where
  "Action os directory format listOnly excludePatterns =
     (if os_Stat_IsNotExist os directory then Inl DirectoryDoesNotExist
      else if \<not> listOnly \<and> format \<noteq> ''text'' \<and> format \<noteq> ''json'' then Inl InvalidFormat
      else
        let format = (if listOnly then ''list'' else format) in
        (case compilePatterns os excludePatterns [] of
           Inl e \<Rightarrow> Inl e
         | Inr customExcludePatterns \<Rightarrow> Inr (directory, format, customExcludePatterns)))"

text \<open>
  A run of the program with the flags \<^verbatim>\<open>--dir\<close>, \<^verbatim>\<open>--format\<close>, \<^verbatim>\<open>--list\<close> and \<^verbatim>\<open>--exclude\<close>: the
  states in which it can end. \<^verbatim>\<open>log.Fatal(err)\<close> exits with status 1.
\<close>

inductive main :: "env \<Rightarrow> string \<Rightarrow> fnode \<Rightarrow> string \<Rightarrow> string \<Rightarrow> bool \<Rightarrow> string list \<Rightarrow> state \<Rightarrow> bool"
  for os :: env and rootName :: string and tree :: fnode and directory :: string and format :: string
    and listOnly :: bool and excludePatterns :: "string list" where
  not_started:
    "Action os directory format listOnly excludePatterns = Inl e \<Longrightarrow>
     main os rootName tree directory format listOnly excludePatterns (idle\<lparr>coord := Returned (Some e)\<rparr>)"
| started:
    "Action os directory format listOnly excludePatterns = Inr (baseDir, format', customExcludePatterns) \<Longrightarrow>
     listFiles os customExcludePatterns rootName tree baseDir format' s \<Longrightarrow>
     main os rootName tree directory format listOnly excludePatterns s"

definition exit_status :: "state \<Rightarrow> nat" where
  "exit_status s = (case coord s of Returned (Some e) \<Rightarrow> 1 | _ \<Rightarrow> 0)"

section \<open>Notions the properties are stated with\<close>

text \<open>The records a worker appends and the notifications it sends, in program order.\<close>

fun appends :: "action list \<Rightarrow> FileContent list" where
  "appends [] = []"
| "appends (Append fc # acts) = fc # appends acts"
| "appends (a # acts) = appends acts"

fun sends :: "action list \<Rightarrow> string list" where
  "sends [] = []"
| "sends (Send rel # acts) = rel # sends acts"
| "sends (a # acts) = sends acts"

fun reads :: "action list \<Rightarrow> string list" where
  "reads [] = []"
| "reads (ReadFile p # acts) = p # reads acts"
| "reads (a # acts) = reads acts"

fun logged :: "action list \<Rightarrow> logmsg list" where
  "logged [] = []"
| "logged (Log m # acts) = m # logged acts"
| "logged (a # acts) = logged acts"

text \<open>
  The file processor skips a file when \<^verbatim>\<open>os.Stat\<close> fails, when the size is over the limit,
  or when the content is asked for and \<^verbatim>\<open>os.ReadFile\<close> fails.
\<close>

definition skipped :: "env \<Rightarrow> string \<Rightarrow> bool \<Rightarrow> bool" where
  "skipped os path readContent =
     (case os_Stat os path of
        Inl e \<Rightarrow> True
      | Inr sz \<Rightarrow> maxFileSize < sint sz \<or> (readContent \<and> isl (os_ReadFile os path)))"

text \<open>The paths the walk function was called on, and the goroutines it started.\<close>

fun called :: "wevent list \<Rightarrow> string list" where
  "called [] = []"
| "called (Call p # evs) = p # called evs"
| "called (Go p rel # evs) = called evs"

fun spawned :: "wevent list \<Rightarrow> (string \<times> string) list" where
  "spawned [] = []"
| "spawned (Call p # evs) = spawned evs"
| "spawned (Go p rel # evs) = (p, rel) # spawned evs"

text \<open>
  The verdict of \<^verbatim>\<open>shouldExclude\<close> on the entry at \<open>path\<close> with base name \<open>name\<close>, as the
  walk function of \<^verbatim>\<open>listFiles\<close> asks for it, and the relative path it passes on.
\<close>

definition relativePath_of :: "env \<Rightarrow> string \<Rightarrow> string \<Rightarrow> string" where
  "relativePath_of os baseDir path = (case filepath_Rel os baseDir path of Inr rel \<Rightarrow> rel | Inl e \<Rightarrow> [])"

definition excluded :: "env \<Rightarrow> glob list \<Rightarrow> gitignore_Matcher \<Rightarrow> string \<Rightarrow> string \<Rightarrow> string \<Rightarrow> bool" where
  "excluded os customExcludePatterns matcher baseDir path name =
     shouldExclude customExcludePatterns matcher name (relativePath_of os baseDir path)"

text \<open>
  Every entry of a tree, in the order of the listing, each with its path, its base name,
  whether it is a file (an entry that is not a directory and whose \<^verbatim>\<open>Lstat\<close> succeeds), and
  whether a directory above it, the root included, is excluded.
\<close>

record entry =
  e_path :: string
  e_name :: string
  e_file :: bool
  e_pruned :: bool

fun under :: "(string \<Rightarrow> string \<Rightarrow> string) \<Rightarrow> (string \<Rightarrow> string \<Rightarrow> bool) \<Rightarrow> bool \<Rightarrow> string \<Rightarrow> string \<Rightarrow> fnode \<Rightarrow> entry list"
and under_names :: "(string \<Rightarrow> string \<Rightarrow> string) \<Rightarrow> (string \<Rightarrow> string \<Rightarrow> bool) \<Rightarrow> bool \<Rightarrow> string \<Rightarrow> (string \<times> fnode) list \<Rightarrow> entry list" where
  "under join ex pruned path name File =
     [\<lparr>e_path = path, e_name = name, e_file = True, e_pruned = pruned\<rparr>]"
| "under join ex pruned path name (NoLstat e) =
     [\<lparr>e_path = path, e_name = name, e_file = False, e_pruned = pruned\<rparr>]"
| "under join ex pruned path name (DirUnreadable e) =
     [\<lparr>e_path = path, e_name = name, e_file = False, e_pruned = pruned\<rparr>]"
| "under join ex pruned path name (Dir entries) =
     \<lparr>e_path = path, e_name = name, e_file = False, e_pruned = pruned\<rparr>
       # under_names join ex (pruned \<or> ex path name) path entries"
| "under_names join ex pruned path [] = []"
| "under_names join ex pruned path ((name, node) # rest) =
     under join ex pruned (join path name) name node @ under_names join ex pruned path rest"

text \<open>
  The paths of the entries that no excluded directory hides, and the files among them
  that are not excluded themselves, each with its relative path.
\<close>

definition visible :: "entry list \<Rightarrow> string list" where
  "visible es = map e_path (filter (\<lambda>e. \<not> e_pruned e) es)"

definition survivors :: "env \<Rightarrow> glob list \<Rightarrow> gitignore_Matcher \<Rightarrow> string \<Rightarrow> entry list \<Rightarrow> (string \<times> string) list" where
  "survivors os customExcludePatterns matcher baseDir es =
     map (\<lambda>e. (e_path e, relativePath_of os baseDir (e_path e)))
       (filter (\<lambda>e. e_file e \<and> \<not> e_pruned e \<and>
                     \<not> excluded os customExcludePatterns matcher baseDir (e_path e) (e_name e)) es)"

text \<open>
  A schedule is a list of turns; running it is a sequence of steps. It makes the runs
  of the concrete instances below computable.
\<close>

datatype turn = Coordinator | Worker nat | Reporter

fun turn_next :: "(string \<Rightarrow> string \<Rightarrow> action list) \<Rightarrow> string \<Rightarrow> turn \<Rightarrow> state \<Rightarrow> state option" where
  "turn_next body format Coordinator s = coord_next body format (coord s) s"
| "turn_next body format (Worker i) s = worker_next i s"
| "turn_next body format Reporter s = reporter_next s"

fun schedule :: "(string \<Rightarrow> string \<Rightarrow> action list) \<Rightarrow> string \<Rightarrow> turn list \<Rightarrow> state \<Rightarrow> state option" where
  "schedule body format [] s = Some s"
| "schedule body format (t # ts) s =
     (case turn_next body format t s of None \<Rightarrow> None | Some s' \<Rightarrow> schedule body format ts s')"

text \<open>
  Worker \<open>i\<close> stalls in a state of a run that has not ended: it is at its send on
  \<^verbatim>\<open>progressChan\<close> and the send cannot complete.
\<close>

definition stalled :: "nat \<Rightarrow> state \<Rightarrow> bool" where
  "stalled i s =
     (running (coord s) \<and> i < length (workers s) \<and>
      (case workers s ! i of Send rel # rest \<Rightarrow> worker_next i s = None | _ \<Rightarrow> False))"

text \<open>The steps a state has left at most: a bound that every step lowers.\<close>

fun event_weight :: "(string \<Rightarrow> string \<Rightarrow> action list) \<Rightarrow> wevent \<Rightarrow> nat" where
  "event_weight body (Call p) = 1"
| "event_weight body (Go p rel) = 1 + 2 * length (body p rel)"

fun coord_weight :: "(string \<Rightarrow> string \<Rightarrow> action list) \<Rightarrow> coordinator \<Rightarrow> nat" where
  "coord_weight body (Walking evs r) = 3 + sum_list (map (event_weight body) evs)"
| "coord_weight body Waiting = 2"
| "coord_weight body Draining = 1"
| "coord_weight body (Returned r) = 0"

fun reporter_weight :: "reporter_pc \<Rightarrow> nat" where
  "reporter_weight Counting = 2"
| "reporter_weight Receiving = 1"
| "reporter_weight pc = 0"

definition remaining :: "(string \<Rightarrow> string \<Rightarrow> action list) \<Rightarrow> state \<Rightarrow> nat" where
  "remaining body s =
     coord_weight body (coord s) + 2 * sum_list (map length (workers s)) + reporter_weight (reporter s)"

text \<open>
  What holds in every state of a run of \<^verbatim>\<open>listFiles\<close> whose walk has the events \<open>evs\<close> and
  the result \<open>err\<close>: the walk has consumed a prefix of its events; the workers are, in the
  order of their start, the unfinished rests of the bodies started so far; the effects
  performed and the effects still to come are together the effects of those bodies; the
  shared slice holds the records appended, in the order of the appends; the reporter has
  counted every notification sent; and the control states fit together.
\<close>

fun pending :: "coordinator \<Rightarrow> wevent list" where
  "pending (Walking evs r) = evs"
| "pending c = []"

definition started_bodies :: "(string \<Rightarrow> string \<Rightarrow> action list) \<Rightarrow> wevent list \<Rightarrow> action list list" where
  "started_bodies body evs = map (\<lambda>(p, rel). body p rel) (spawned evs)"

definition accounted :: "(string \<Rightarrow> string \<Rightarrow> action list) \<Rightarrow> wevent list \<Rightarrow> state \<Rightarrow> bool" where
  "accounted body evs s =
     (\<exists>pre. evs = pre @ pending (coord s) \<and>
            visited s = called pre \<and>
            list_all2 suffix (workers s) (started_bodies body pre) \<and>
            mset (performed s) + mset (concat (workers s)) = mset (concat (started_bodies body pre)))"

definition invariant :: "(string \<Rightarrow> string \<Rightarrow> action list) \<Rightarrow> string \<Rightarrow> error option \<Rightarrow> wevent list \<Rightarrow> state \<Rightarrow> bool" where
  "invariant body format err evs s =
     (accounted body evs s \<and>
      files s = appends (performed s) \<and>
      rcount s + (if reporter s = Counting then 1 else 0) = length (sends (performed s)) \<and>
      (\<forall>rest r. coord s = Walking rest r \<longrightarrow> r = err) \<and>
      (coord s = Waiting \<or> coord s = Draining \<or> coord s = Returned None \<longrightarrow> err = None) \<and>
      (\<forall>e. coord s = Returned (Some e) \<longrightarrow> err = Some e) \<and>
      (coord s = Draining \<or> coord s = Returned None \<longrightarrow> list_all (\<lambda>w. w = []) (workers s)) \<and>
      (reporter s = Exited \<longrightarrow> coord s = Draining \<or> coord s = Returned None) \<and>
      reporter s \<noteq> NotStarted \<and>
      (coord s = Returned None \<longrightarrow> reporter s = Exited \<and> stdout s = Some (render format (files s))) \<and>
      (coord s \<noteq> Returned None \<longrightarrow> stdout s = None))"

section \<open>Example inputs\<close>

text \<open>
  A small world for the concrete instances below: the scanned directory is \<^verbatim>\<open>/r\<close>, paths
  are joined with a slash, one file cannot be stat'ed, one cannot be read, one is a
  byte over the size limit, one is exactly at it, one holds a null byte; every other
  file holds \<^verbatim>\<open>hello\<close>. A glob here matches its own text only, and there is no repository.
\<close>

definition ex_os :: env where
  "ex_os =
     \<lparr>os_Stat = (\<lambda>p. if p = ''/r/gone'' then Inl ''no such file or directory''
                     else if p = ''/r/big.bin'' then Inr 1048577
                     else if p = ''/r/max.txt'' then Inr 1048576
                     else Inr 5),
      os_ReadFile = (\<lambda>p. if p = ''/r/locked'' then Inl ''permission denied''
                         else if p = ''/r/bin.dat'' then Inr [CHR ''a'', CHR 0x00, CHR ''b'']
                         else if p = ''/r/late.dat'' then Inr (replicate 1024 (CHR ''a'') @ [CHR 0x00])
                         else Inr ''hello''),
      os_Stat_IsNotExist = (\<lambda>d. d \<noteq> ''/r''),
      filepath_Join = (\<lambda>p n. p @ ''/'' @ n),
      filepath_Rel = (\<lambda>b t. if t = b then Inr ''.''
                            else if prefix (b @ ''/'') t then Inr (drop (length b + 1) t)
                            else Inl ''cannot make the path relative''),
      glob_Compile = (\<lambda>pat. if pat = ''['' then Inl ''unexpected end of input'' else Inr (\<lambda>s. s = pat)),
      git_PlainOpen = (\<lambda>d. ErrRepositoryNotExists),
      gitignore_NewMatcher = (\<lambda>ps path isdir. False)\<rparr>"

definition no_match :: gitignore_Matcher where
  "no_match = (\<lambda>path isdir. False)"

text \<open>
  A tree under \<^verbatim>\<open>/r\<close> (base name \<^verbatim>\<open>r\<close>): two text files, the directory \<^verbatim>\<open>build\<close> with one
  file, a file that cannot be stat'ed, and a file named \<^verbatim>\<open>out\<close>. The events of its walk, and
  three schedules of its run in the \<^verbatim>\<open>list\<close> format with the states they lead to: the first
  worker finishes before the second starts; the second finishes before the first starts;
  and both have appended, the first has sent, and the reporter is in its loop body.
\<close>

definition ex_tree :: fnode where
  "ex_tree = Dir [(''a.txt'', File), (''b.txt'', File), (''build'', Dir [(''out.o'', File)]),
                  (''gone'', File), (''out'', File)]"

definition ex_events :: "wevent list" where
  "ex_events =
     [Call ''/r'', Call ''/r/a.txt'', Go ''/r/a.txt'' ''a.txt'', Call ''/r/b.txt'',
      Go ''/r/b.txt'' ''b.txt'', Call ''/r/build'', Call ''/r/gone'',
      Go ''/r/gone'' ''gone'', Call ''/r/out'']"

definition ex_schedule1 :: "turn list" where
  "ex_schedule1 =
     replicate 10 Coordinator @
     [Worker 0, Worker 0, Worker 0, Reporter, Worker 1, Worker 1, Worker 1, Reporter,
      Worker 2, Worker 2, Coordinator, Reporter, Coordinator]"

definition ex_schedule2 :: "turn list" where
  "ex_schedule2 =
     replicate 10 Coordinator @
     [Worker 1, Worker 1, Worker 1, Reporter, Worker 0, Worker 0, Worker 0, Reporter,
      Worker 2, Worker 2, Coordinator, Reporter, Coordinator]"

definition ex_schedule3 :: "turn list" where
  "ex_schedule3 = replicate 10 Coordinator @ [Worker 0, Worker 0, Worker 1, Worker 1, Worker 0]"

definition ex_final1 :: state where
  "ex_final1 =
     \<lparr>coord = Returned None, workers = [[], [], []],
      files = [\<lparr>Path = ''a.txt'', Content = []\<rparr>, \<lparr>Path = ''b.txt'', Content = []\<rparr>],
      reporter = Exited, rcount = 2,
      visited = [''/r'', ''/r/a.txt'', ''/r/b.txt'', ''/r/build'', ''/r/gone'', ''/r/out''],
      performed =
        [Stat ''/r/a.txt'', Append \<lparr>Path = ''a.txt'', Content = []\<rparr>, Send ''a.txt'',
         Stat ''/r/b.txt'', Append \<lparr>Path = ''b.txt'', Content = []\<rparr>, Send ''b.txt'',
         Stat ''/r/gone'', Log (ErrorGettingFileInfo ''/r/gone'' ''no such file or directory'')],
      stderr = [ProcessedFinal 2],
      stdout = Some (Printed (''- a.txt'' @ [CHR 0x0A] @ ''- b.txt'' @ [CHR 0x0A]))\<rparr>"

definition ex_final2 :: state where
  "ex_final2 =
     \<lparr>coord = Returned None, workers = [[], [], []],
      files = [\<lparr>Path = ''b.txt'', Content = []\<rparr>, \<lparr>Path = ''a.txt'', Content = []\<rparr>],
      reporter = Exited, rcount = 2,
      visited = [''/r'', ''/r/a.txt'', ''/r/b.txt'', ''/r/build'', ''/r/gone'', ''/r/out''],
      performed =
        [Stat ''/r/b.txt'', Append \<lparr>Path = ''b.txt'', Content = []\<rparr>, Send ''b.txt'',
         Stat ''/r/a.txt'', Append \<lparr>Path = ''a.txt'', Content = []\<rparr>, Send ''a.txt'',
         Stat ''/r/gone'', Log (ErrorGettingFileInfo ''/r/gone'' ''no such file or directory'')],
      stderr = [ProcessedFinal 2],
      stdout = Some (Printed (''- b.txt'' @ [CHR 0x0A] @ ''- a.txt'' @ [CHR 0x0A]))\<rparr>"

definition ex_stalled :: state where
  "ex_stalled =
     \<lparr>coord = Waiting,
      workers =
        [[], [Send ''b.txt''],
         [Stat ''/r/gone'', Log (ErrorGettingFileInfo ''/r/gone'' ''no such file or directory'')]],
      files = [\<lparr>Path = ''a.txt'', Content = []\<rparr>, \<lparr>Path = ''b.txt'', Content = []\<rparr>],
      reporter = Counting, rcount = 0,
      visited = [''/r'', ''/r/a.txt'', ''/r/b.txt'', ''/r/build'', ''/r/gone'', ''/r/out''],
      performed =
        [Stat ''/r/a.txt'', Append \<lparr>Path = ''a.txt'', Content = []\<rparr>,
         Stat ''/r/b.txt'', Append \<lparr>Path = ''b.txt'', Content = []\<rparr>, Send ''a.txt''],
      stderr = [], stdout = None\<rparr>"

section \<open>Facts about the model\<close>

subsection \<open>Effects and events\<close>

lemma appends_append: "appends (xs @ ys) = appends xs @ appends ys"
  by (induction xs rule: appends.induct) auto

lemma sends_append: "sends (xs @ ys) = sends xs @ sends ys"
  by (induction xs rule: sends.induct) auto

lemma reads_append: "reads (xs @ ys) = reads xs @ reads ys"
  by (induction xs rule: reads.induct) auto

lemma called_append: "called (xs @ ys) = called xs @ called ys"
  by (induction xs rule: called.induct) auto

lemma spawned_append: "spawned (xs @ ys) = spawned xs @ spawned ys"
  by (induction xs rule: spawned.induct) auto

lemma in_appends: "fc \<in> set (appends acts) \<longleftrightarrow> Append fc \<in> set acts"
  by (induction acts rule: appends.induct) auto

lemma in_sends: "r \<in> set (sends acts) \<longleftrightarrow> Send r \<in> set acts"
  by (induction acts rule: sends.induct) auto

lemma in_reads: "r \<in> set (reads acts) \<longleftrightarrow> ReadFile r \<in> set acts"
  by (induction acts rule: reads.induct) auto

lemma in_spawned: "(p, r) \<in> set (spawned evs) \<longleftrightarrow> Go p r \<in> set evs"
  by (induction evs rule: spawned.induct) auto

lemma in_called: "p \<in> set (called evs) \<longleftrightarrow> Call p \<in> set evs"
  by (induction evs rule: called.induct) auto

lemma appends_map_filter:
  "appends xs = List.map_filter (\<lambda>a. case a of Append fc \<Rightarrow> Some fc | _ \<Rightarrow> None) xs"
  by (induction xs rule: appends.induct) (simp_all add: map_filter_simps)

lemma sends_map_filter:
  "sends xs = List.map_filter (\<lambda>a. case a of Send r \<Rightarrow> Some r | _ \<Rightarrow> None) xs"
  by (induction xs rule: sends.induct) (simp_all add: map_filter_simps)

lemma reads_map_filter:
  "reads xs = List.map_filter (\<lambda>a. case a of ReadFile r \<Rightarrow> Some r | _ \<Rightarrow> None) xs"
  by (induction xs rule: reads.induct) (simp_all add: map_filter_simps)

lemma logged_map_filter:
  "logged xs = List.map_filter (\<lambda>a. case a of Log r \<Rightarrow> Some r | _ \<Rightarrow> None) xs"
  by (induction xs rule: logged.induct) (simp_all add: map_filter_simps)

lemma mset_map_filter_cong:
  "mset xs = mset ys \<Longrightarrow> mset (List.map_filter f xs) = mset (List.map_filter f ys)"
proof -
  assume a: "mset xs = mset ys"
  have "\<And>zs. mset (List.map_filter f zs) = image_mset (the \<circ> f) (filter_mset (\<lambda>x. f x \<noteq> None) (mset zs))"
    by (simp add: map_filter_def)
  with a show ?thesis by simp
qed

lemma mset_appends_cong: "mset xs = mset ys \<Longrightarrow> mset (appends xs) = mset (appends ys)"
  unfolding appends_map_filter by (rule mset_map_filter_cong)

lemma mset_sends_cong: "mset xs = mset ys \<Longrightarrow> mset (sends xs) = mset (sends ys)"
  unfolding sends_map_filter by (rule mset_map_filter_cong)

lemma mset_reads_cong: "mset xs = mset ys \<Longrightarrow> mset (reads xs) = mset (reads ys)"
  unfolding reads_map_filter by (rule mset_map_filter_cong)

lemma mset_logged_cong: "mset xs = mset ys \<Longrightarrow> mset (logged xs) = mset (logged ys)"
  unfolding logged_map_filter by (rule mset_map_filter_cong)

subsection \<open>The exclusion evaluator, the classifier and the file processor\<close>

lemma in_excludedDirs_shouldExclude: "name \<in> set excludedDirs \<Longrightarrow> shouldExclude cps m name rel"
  unfolding shouldExclude_def list_ex_iff by auto

lemma isBinary_iff: "isBinary content \<longleftrightarrow> CHR 0x00 \<in> set (take 1024 content)"
  by (auto simp: isBinary_def Let_def list_ex_iff)

lemma processFile_cases:
  obtains
    (stat_failed) e where "os_Stat os path = Inl e"
      "processFile os path rel rc = [Stat path, Log (ErrorGettingFileInfo path e)]"
  | (too_large) sz where "os_Stat os path = Inr sz" "maxFileSize < sint sz"
      "processFile os path rel rc = [Stat path, Log (SkippingLargeFile path sz)]"
  | (read_failed) sz e where "os_Stat os path = Inr sz" "sint sz \<le> maxFileSize" "rc" "os_ReadFile os path = Inl e"
      "processFile os path rel rc = [Stat path, ReadFile path, Log (FailedToReadFile path e)]"
  | (read) sz content where "os_Stat os path = Inr sz" "sint sz \<le> maxFileSize" "rc" "os_ReadFile os path = Inr content"
      "processFile os path rel rc =
         [Stat path, ReadFile path,
          Append \<lparr>Path = rel, Content = (if isBinary content then [] else content)\<rparr>, Send rel]"
  | (listed) sz where "os_Stat os path = Inr sz" "sint sz \<le> maxFileSize" "\<not> rc"
      "processFile os path rel rc = [Stat path, Append \<lparr>Path = rel, Content = []\<rparr>, Send rel]"
proof (cases "os_Stat os path")
  case (Inl e)
  then show ?thesis by (intro stat_failed[of e]) (simp_all add: processFile_def)
next
  case (Inr sz)
  show ?thesis
  proof (cases "maxFileSize < sint sz")
    case True
    with Inr show ?thesis by (intro too_large[of sz]) (simp_all add: processFile_def)
  next
    case False
    show ?thesis
    proof (cases rc)
      case False
      with Inr \<open>\<not> maxFileSize < sint sz\<close> show ?thesis
        by (intro listed[of sz]) (simp_all add: processFile_def)
    next
      case True
      show ?thesis
      proof (cases "os_ReadFile os path")
        case (Inl e)
        with Inr True \<open>\<not> maxFileSize < sint sz\<close> show ?thesis
          by (intro read_failed[of sz e]) (simp_all add: processFile_def)
      next
        case (Inr content)
        with \<open>os_Stat os path = Inr sz\<close> True \<open>\<not> maxFileSize < sint sz\<close> show ?thesis
          by (intro read[of sz content]) (simp_all add: processFile_def Let_def)
      qed
    qed
  qed
qed

lemma processFile_skipped:
  "skipped os path rc \<Longrightarrow>
     appends (processFile os path rel rc) = [] \<and> sends (processFile os path rel rc) = [] \<and>
     (\<exists>m. logged (processFile os path rel rc) = [m])"
  by (rule processFile_cases[where os = os and path = path and rel = rel and rc = rc]) (auto simp: skipped_def)

lemma processFile_not_skipped:
  "\<not> skipped os path rc \<Longrightarrow>
     (\<exists>fc. appends (processFile os path rel rc) = [fc] \<and> Path fc = rel) \<and>
     sends (processFile os path rel rc) = [rel] \<and> logged (processFile os path rel rc) = []"
  by (rule processFile_cases[where os = os and path = path and rel = rel and rc = rc]) (auto simp: skipped_def)

lemma processFile_append:
  "Append fc \<in> set (processFile os path rel rc) \<Longrightarrow>
     Path fc = rel \<and> (\<exists>sz. os_Stat os path = Inr sz \<and> sint sz \<le> maxFileSize) \<and>
     (\<not> rc \<longrightarrow> Content fc = [])"
  by (rule processFile_cases[where os = os and path = path and rel = rel and rc = rc]) auto

lemma processFile_no_read: "reads (processFile os path rel False) = []"
  by (rule processFile_cases[where os = os and path = path and rel = rel and rc = False]) auto

lemma length_sends_processFile:
  "length (sends (processFile os path rel rc)) = length (appends (processFile os path rel rc))"
  by (rule processFile_cases[where os = os and path = path and rel = rel and rc = rc]) auto

subsection \<open>The walk\<close>

lemma pruned_under_gen:
  "pruned \<Longrightarrow> \<forall>e \<in> set (under join ex pruned path name node). e_pruned e"
  "pruned \<Longrightarrow> \<forall>e \<in> set (under_names join ex pruned path entries). e_pruned e"
  by (induction join ex pruned path name node and join ex pruned path entries rule: under_under_names.induct) auto

lemma call_walkFn_err:
  "call (walkFn os cps m b) path info (Some e) = (Failed (FilesystemError e), [Call path])"
  by (simp add: call_def walkFn_def)

lemma call_walkFn_rel_failed:
  "filepath_Rel os b path = Inl e \<Longrightarrow>
   call (walkFn os cps m b) path info None = (Failed (RelativePathFailed e), [Call path])"
  by (simp add: call_def walkFn_def)

lemma call_walkFn_excluded:
  "filepath_Rel os b path = Inr rel \<Longrightarrow> excluded os cps m b path name \<Longrightarrow>
   call (walkFn os cps m b) path (Some (name, isdir)) None = (if isdir then SkipDir else RNil, [Call path])"
  by (simp add: call_def walkFn_def excluded_def relativePath_of_def)

lemma call_walkFn_included:
  "filepath_Rel os b path = Inr rel \<Longrightarrow> \<not> excluded os cps m b path name \<Longrightarrow>
   call (walkFn os cps m b) path (Some (name, isdir)) None =
     (RNil, Call path # (if isdir then [] else [Go path (relativePath_of os b path)]))"
  by (simp add: call_def walkFn_def excluded_def relativePath_of_def)

lemma visible_simps:
  "visible [] = []"
  "visible (e # es) = (if e_pruned e then visible es else e_path e # visible es)"
  "visible (es @ es') = visible es @ visible es'"
  by (simp_all add: visible_def)

lemma survivors_simps:
  "survivors os cps m b [] = []"
  "survivors os cps m b (e # es) =
     (if e_file e \<and> \<not> e_pruned e \<and> \<not> excluded os cps m b (e_path e) (e_name e)
      then (e_path e, relativePath_of os b (e_path e)) # survivors os cps m b es
      else survivors os cps m b es)"
  "survivors os cps m b (es @ es') = survivors os cps m b es @ survivors os cps m b es'"
  by (simp_all add: survivors_def)

lemma pruned_visible:
  "visible (under_names join ex True path entries) = []"
  using pruned_under_gen(2)[of True join ex path entries]
  by (auto simp: visible_def filter_empty_conv)

lemma pruned_survivors:
  "survivors os cps m b (under_names join ex True path entries) = []"
  using pruned_under_gen(2)[of True join ex path entries]
  by (auto simp: survivors_def filter_empty_conv)

lemma walk_shape:
  "fn = walkFn os cps m b \<Longrightarrow> walk fn join path name node = (r, evs) \<Longrightarrow> \<forall>e. r \<noteq> Failed e \<Longrightarrow>
     called evs = visible (under join (excluded os cps m b) False path name node) \<and>
     spawned evs = survivors os cps m b (under join (excluded os cps m b) False path name node) \<and>
     (r = SkipDir \<longrightarrow> isDir node)"
  "fn = walkFn os cps m b \<Longrightarrow> walk_names fn join path entries = (r, evs) \<Longrightarrow> \<forall>e. r \<noteq> Failed e \<Longrightarrow>
     r = RNil \<and>
     called evs = visible (under_names join (excluded os cps m b) False path entries) \<and>
     spawned evs = survivors os cps m b (under_names join (excluded os cps m b) False path entries)"
proof (induction fn join path name node and fn join path entries arbitrary: r evs and r evs
       rule: walk_walk_names.induct)
  case (1 fn join path name)
  show ?case
  proof (cases "filepath_Rel os b path")
    case (Inl e)
    with 1 show ?thesis by (auto simp: call_walkFn_rel_failed)
  next
    case (Inr rel)
    show ?thesis
    proof (cases "excluded os cps m b path name")
      case True
      with 1 Inr show ?thesis
        by (auto simp: call_walkFn_excluded visible_simps survivors_simps)
    next
      case False
      with 1 Inr show ?thesis
        by (auto simp: call_walkFn_included visible_simps survivors_simps)
    qed
  qed
next
  case (2 fn join path name e)
  then show ?case by (auto simp: call_walkFn_err)
next
  case (3 fn join path name e)
  then show ?case by (auto simp: call_walkFn_err)
next
  case (4 fn join path name entries)
  show ?case
  proof (cases "filepath_Rel os b path")
    case (Inl e)
    with 4(2,3,4) show ?thesis by (auto simp: call_walkFn_rel_failed)
  next
    case (Inr rel)
    show ?thesis
    proof (cases "excluded os cps m b path name")
      case True
      with 4(2,3,4) Inr show ?thesis
        by (auto simp: call_walkFn_excluded visible_simps survivors_simps pruned_visible pruned_survivors)
    next
      case False
      have cl: "call fn path (Some (name, True)) None = (RNil, [Call path])"
        using 4(2) Inr False by (simp add: call_walkFn_included)
      obtain r' evs' where w: "walk_names fn join path entries = (r', evs')" by (cases "walk_names fn join path entries")
      with 4(3) cl have res: "r = r'" "evs = Call path # evs'" by simp_all
      from 4(1)[OF cl[symmetric] refl 4(2) w] 4(4) res
      have "r' = RNil \<and> called evs' = visible (under_names join (excluded os cps m b) False path entries) \<and>
            spawned evs' = survivors os cps m b (under_names join (excluded os cps m b) False path entries)"
        by simp
      with res False show ?thesis by (simp add: visible_simps survivors_simps)
    qed
  qed
next
  case (5 fn join path)
  then show ?case by (simp add: visible_simps survivors_simps)
next
  case (6 fn join path name node rest)
  obtain r1 evs1 where w1: "walk fn join (join path name) name node = (r1, evs1)"
    by (cases "walk fn join (join path name) name node")
  let ?stop = "(case node of NoLstat x \<Rightarrow> r1 \<noteq> RNil \<and> r1 \<noteq> SkipDir
               | _ \<Rightarrow> r1 \<noteq> RNil \<and> (\<not> isDir node \<or> r1 \<noteq> SkipDir))"
  show ?case
  proof (cases ?stop)
    case True
    with 6(4) w1 have res: "r = r1" "evs = evs1" by simp_all
    with 6(5) have nf: "\<forall>e. r1 \<noteq> Failed e" by simp
    from 6(1)[OF 6(3) w1 nf] have "r1 = SkipDir \<longrightarrow> isDir node" by simp
    moreover from nf have "r1 = RNil \<or> r1 = SkipDir" by (cases r1) auto
    ultimately have False using True by (cases node) auto
    then show ?thesis ..
  next
    case False
    obtain r' evs' where w2: "walk_names fn join path rest = (r', evs')" by (cases "walk_names fn join path rest")
    with 6(4) w1 False have res: "r = r'" "evs = evs1 @ evs'" by simp_all
    from False have nf: "\<forall>e. r1 \<noteq> Failed e" by (cases node; cases r1) auto
    note a = 6(1)[OF 6(3) w1 nf]
    from res 6(5) have nf': "\<forall>e. r' \<noteq> Failed e" by simp
    note b = 6(2)[OF w1[symmetric] False 6(3) w2 nf']
    from a b res show ?thesis by (simp add: called_append spawned_append visible_simps survivors_simps)
  qed
qed

lemma listFiles_walk_shape:
  assumes "listFiles_walk os cps m rootName tree baseDir = (None, evs)"
  shows "called evs = visible (under (filepath_Join os) (excluded os cps m baseDir) False baseDir rootName tree)"
    and "spawned evs = survivors os cps m baseDir (under (filepath_Join os) (excluded os cps m baseDir) False baseDir rootName tree)"
proof -
  obtain r where w: "walk (walkFn os cps m baseDir) (filepath_Join os) baseDir rootName tree = (r, evs)"
    and nf: "\<forall>e. r \<noteq> Failed e"
    using assms by (auto simp: listFiles_walk_def Walk_def split: prod.splits walk_ret.splits)
  from walk_shape(1)[OF refl w nf]
  show "called evs = visible (under (filepath_Join os) (excluded os cps m baseDir) False baseDir rootName tree)"
    and "spawned evs = survivors os cps m baseDir (under (filepath_Join os) (excluded os cps m baseDir) False baseDir rootName tree)"
    by simp_all
qed

subsection \<open>The three kinds of steps\<close>

lemma turn_next_step: "turn_next body format t s = Some s' \<Longrightarrow> step body format s s'"
  by (cases t) (auto intro: step.intros)

lemma schedule_steps: "schedule body format ts s = Some s' \<Longrightarrow> (step body format)\<^sup>*\<^sup>* s s'"
proof (induction ts arbitrary: s)
  case Nil then show ?case by simp
next
  case (Cons t ts)
  then obtain s1 where a: "turn_next body format t s = Some s1" and b: "schedule body format ts s1 = Some s'"
    by (auto split: option.splits)
  from turn_next_step[OF a] Cons.IH[OF b] show ?case by (rule converse_rtranclp_into_rtranclp)
qed

lemma step_turn: "step body format s s' \<Longrightarrow> \<exists>t. turn_next body format t s = Some s'"
proof (induction rule: step.induct)
  case (coordinator s s') then have "turn_next body format Coordinator s = Some s'" by simp
  then show ?case by blast
next
  case (worker i s s') then have "turn_next body format (Worker i) s = Some s'" by simp
  then show ?case by blast
next
  case (reporter s s') then have "turn_next body format Reporter s = Some s'" by simp
  then show ?case by blast
qed

lemma worker_next_SomeD:
  assumes "worker_next i s = Some s'"
  obtains a rest where "running (coord s)" "i < length (workers s)" "workers s ! i = a # rest"
    "s' = (case a of Append r \<Rightarrow> s\<lparr>workers := (workers s)[i := rest], performed := performed s @ [a], files := files s @ [r]\<rparr>
           | Send rel \<Rightarrow> s\<lparr>workers := (workers s)[i := rest], performed := performed s @ [a], reporter := Counting\<rparr>
           | _ \<Rightarrow> s\<lparr>workers := (workers s)[i := rest], performed := performed s @ [a]\<rparr>)"
    "\<And>rel. a = Send rel \<Longrightarrow> reporter s = Receiving"
  using assms
  by (auto simp: worker_next_def Let_def split: if_splits list.splits action.splits)

lemma reporter_next_SomeD:
  assumes "reporter_next s = Some s'"
  shows "running (coord s) \<and>
     ((reporter s = Counting \<and> s' = s\<lparr>reporter := Receiving, rcount := rcount s + 1,
                     stderr := stderr s @ (if (rcount s + 1) mod 100 = 0 then [Processed (rcount s + 1)] else [])\<rparr>)
      \<or> (reporter s = Receiving \<and> coord s = Draining \<and> s' = s\<lparr>reporter := Exited, stderr := stderr s @ [ProcessedFinal (rcount s)]\<rparr>))"
  using assms by (auto simp: reporter_next_def split: if_splits reporter_pc.splits)

lemma coord_next_SomeD:
  assumes "coord_next body format (coord s) s = Some s'"
  shows "(\<exists>p evs r. coord s = Walking (Call p # evs) r \<and> s' = s\<lparr>coord := Walking evs r, visited := visited s @ [p]\<rparr>)
       \<or> (\<exists>p rel evs r. coord s = Walking (Go p rel # evs) r \<and> s' = s\<lparr>coord := Walking evs r, workers := workers s @ [body p rel]\<rparr>)
       \<or> (coord s = Walking [] None \<and> s' = s\<lparr>coord := Waiting\<rparr>)
       \<or> (\<exists>e. coord s = Walking [] (Some e) \<and> s' = s\<lparr>coord := Returned (Some e)\<rparr>)
       \<or> (coord s = Waiting \<and> list_all (\<lambda>w. w = []) (workers s) \<and> s' = s\<lparr>coord := Draining\<rparr>)
       \<or> (coord s = Draining \<and> reporter s = Exited \<and> s' = s\<lparr>coord := Returned None, stdout := Some (render format (files s))\<rparr>)"
  using assms
  by (cases "(body, format, coord s, s)" rule: coord_next.cases) (auto split: if_splits)

lemma worker_next_fields:
  assumes "worker_next i s = Some s'"
  obtains a rest where "running (coord s)" "i < length (workers s)" "workers s ! i = a # rest"
    "coord s' = coord s" "visited s' = visited s" "workers s' = (workers s)[i := rest]"
    "performed s' = performed s @ [a]" "stdout s' = stdout s" "rcount s' = rcount s" "stderr s' = stderr s"
    "files s' = files s @ appends [a]"
    "reporter s' = (if sends [a] = [] then reporter s else Counting)"
    "sends [a] \<noteq> [] \<Longrightarrow> reporter s = Receiving"
proof (rule worker_next_SomeD[OF assms])
  fix a rest
  assume h: "running (coord s)" "i < length (workers s)" "workers s ! i = a # rest"
    "s' = (case a of Append r \<Rightarrow> s\<lparr>workers := (workers s)[i := rest], performed := performed s @ [a], files := files s @ [r]\<rparr>
         | Send rel \<Rightarrow> s\<lparr>workers := (workers s)[i := rest], performed := performed s @ [a], reporter := Counting\<rparr>
         | _ \<Rightarrow> s\<lparr>workers := (workers s)[i := rest], performed := performed s @ [a]\<rparr>)"
    "\<And>rel. a = Send rel \<Longrightarrow> reporter s = Receiving"
  show thesis
    by (rule that[of a rest]) (use h in \<open>cases a; simp\<close>)+
qed

subsection \<open>Every step lowers the bound\<close>

lemma sum_list_length_update:
  "i < length ws \<Longrightarrow> ws ! i = a # rest \<Longrightarrow> sum_list (map length (ws[i := rest])) + 1 = sum_list (map length ws)"
proof (induction ws arbitrary: i)
  case Nil then show ?case by simp
next
  case (Cons w ws) then show ?case by (cases i) auto
qed

lemma step_remaining: "step body format s s' \<Longrightarrow> remaining body s' < remaining body s"
proof (induction rule: step.induct)
  case (coordinator s s')
  from coord_next_SomeD[OF this] show ?case
    by (auto simp: remaining_def)
next
  case (worker i s s')
  then show ?case
  proof (rule worker_next_SomeD)
    fix a rest
    assume h: "running (coord s)" "i < length (workers s)" "workers s ! i = a # rest"
      "s' = (case a of Append r \<Rightarrow> s\<lparr>workers := (workers s)[i := rest], performed := performed s @ [a], files := files s @ [r]\<rparr>
           | Send rel \<Rightarrow> s\<lparr>workers := (workers s)[i := rest], performed := performed s @ [a], reporter := Counting\<rparr>
           | _ \<Rightarrow> s\<lparr>workers := (workers s)[i := rest], performed := performed s @ [a]\<rparr>)"
      "\<And>rel. a = Send rel \<Longrightarrow> reporter s = Receiving"
    from sum_list_length_update[OF h(2,3)] h(4,5) show ?thesis
      by (cases a) (auto simp: remaining_def)
  qed
next
  case (reporter s s')
  from reporter_next_SomeD[OF this] show ?case by (auto simp: remaining_def)
qed

subsection \<open>The invariant of a run\<close>

lemma invariant_init: "invariant body format err evs (listFiles_init err evs)"
  by (simp add: invariant_def accounted_def listFiles_init_def idle_def started_bodies_def)

lemma mset_concat_update:
  "i < length ws \<Longrightarrow> ws ! i = a # rest \<Longrightarrow> mset (concat ws) = add_mset a (mset (concat (ws[i := rest])))"
proof (induction ws arbitrary: i)
  case Nil then show ?case by simp
next
  case (Cons w ws) then show ?case by (cases i) auto
qed

lemma list_all2_suffix_update:
  "list_all2 suffix ws bs \<Longrightarrow> i < length ws \<Longrightarrow> ws ! i = a # rest \<Longrightarrow> list_all2 suffix (ws[i := rest]) bs"
proof -
  assume a: "list_all2 suffix ws bs" "i < length ws" "ws ! i = a # rest"
  then have "suffix (a # rest) (bs ! i)" by (auto simp: list_all2_conv_all_nth)
  then have "suffix rest (bs ! i)" by (rule suffix_ConsD)
  with a show ?thesis by (auto simp: list_all2_conv_all_nth nth_list_update)
qed

lemma list_all_nil_update:
  "list_all (\<lambda>w. w = []) ws \<Longrightarrow> i < length ws \<Longrightarrow> ws ! i = a # rest \<Longrightarrow> False"
  by (auto simp: list_all_length)

lemma accounted_same:
  "coord s' = coord s \<Longrightarrow> visited s' = visited s \<Longrightarrow> workers s' = workers s \<Longrightarrow> performed s' = performed s \<Longrightarrow>
   accounted body evs s' = accounted body evs s"
  by (simp add: accounted_def)

lemma accounted_worker:
  assumes "accounted body evs s" "i < length (workers s)" "workers s ! i = a # rest"
    "coord s' = coord s" "visited s' = visited s" "workers s' = (workers s)[i := rest]" "performed s' = performed s @ [a]"
  shows "accounted body evs s'"
proof -
  from assms(1) obtain pre where pre: "evs = pre @ pending (coord s)" "visited s = called pre"
     "list_all2 suffix (workers s) (started_bodies body pre)"
     "mset (performed s) + mset (concat (workers s)) = mset (concat (started_bodies body pre))"
    unfolding accounted_def by blast
  have "list_all2 suffix (workers s') (started_bodies body pre)"
    using list_all2_suffix_update[OF pre(3) assms(2,3)] assms(6) by simp
  moreover have "mset (performed s') + mset (concat (workers s')) = mset (concat (started_bodies body pre))"
    using mset_concat_update[OF assms(2,3)] pre(4) assms(6,7) by simp
  ultimately show ?thesis unfolding accounted_def using pre(1,2) assms(4,5) by auto
qed

lemma accounted_moved:
  assumes "accounted body evs s" "coord s = Walking [] r" "pending (coord s') = []"
    "visited s' = visited s" "workers s' = workers s" "performed s' = performed s"
  shows "accounted body evs s'"
  using assms by (simp add: accounted_def)

lemma accounted_still:
  assumes "accounted body evs s" "pending (coord s) = []" "pending (coord s') = []"
    "visited s' = visited s" "workers s' = workers s" "performed s' = performed s"
  shows "accounted body evs s'"
  using assms by (simp add: accounted_def)

lemma accounted_call:
  assumes "accounted body evs s" "coord s = Walking (Call p # rest) r" "coord s' = Walking rest r"
    "visited s' = visited s @ [p]" "workers s' = workers s" "performed s' = performed s"
  shows "accounted body evs s'"
proof -
  from assms(1) obtain pre where pre: "evs = pre @ pending (coord s)" "visited s = called pre"
     "list_all2 suffix (workers s) (started_bodies body pre)"
     "mset (performed s) + mset (concat (workers s)) = mset (concat (started_bodies body pre))"
    unfolding accounted_def by blast
  have "evs = (pre @ [Call p]) @ pending (coord s') \<and> visited s' = called (pre @ [Call p]) \<and>
        list_all2 suffix (workers s') (started_bodies body (pre @ [Call p])) \<and>
        mset (performed s') + mset (concat (workers s')) = mset (concat (started_bodies body (pre @ [Call p])))"
    using pre assms(2-) by (simp add: called_append spawned_append started_bodies_def)
  then show ?thesis unfolding accounted_def by blast
qed

lemma accounted_go:
  assumes "accounted body evs s" "coord s = Walking (Go p rel # rest) r" "coord s' = Walking rest r"
    "visited s' = visited s" "workers s' = workers s @ [body p rel]" "performed s' = performed s"
  shows "accounted body evs s'"
proof -
  from assms(1) obtain pre where pre: "evs = pre @ pending (coord s)" "visited s = called pre"
     "list_all2 suffix (workers s) (started_bodies body pre)"
     "mset (performed s) + mset (concat (workers s)) = mset (concat (started_bodies body pre))"
    unfolding accounted_def by blast
  have "evs = (pre @ [Go p rel]) @ pending (coord s') \<and> visited s' = called (pre @ [Go p rel]) \<and>
        list_all2 suffix (workers s') (started_bodies body (pre @ [Go p rel])) \<and>
        mset (performed s') + mset (concat (workers s')) = mset (concat (started_bodies body (pre @ [Go p rel])))"
    using pre assms(2-) by (simp add: called_append spawned_append started_bodies_def list_all2_appendI)
  then show ?thesis unfolding accounted_def by blast
qed

lemma invariantD:
  assumes "invariant body format err evs s"
  shows "accounted body evs s"
    and "files s = appends (performed s)"
    and "rcount s + (if reporter s = Counting then 1 else 0) = length (sends (performed s))"
    and "\<And>rest r. coord s = Walking rest r \<Longrightarrow> r = err"
    and "coord s = Waiting \<or> coord s = Draining \<or> coord s = Returned None \<Longrightarrow> err = None"
    and "\<And>e. coord s = Returned (Some e) \<Longrightarrow> err = Some e"
    and "coord s = Draining \<or> coord s = Returned None \<Longrightarrow> list_all (\<lambda>w. w = []) (workers s)"
    and "reporter s = Exited \<Longrightarrow> coord s = Draining \<or> coord s = Returned None"
    and "reporter s \<noteq> NotStarted"
    and "coord s = Returned None \<Longrightarrow> reporter s = Exited \<and> stdout s = Some (render format (files s))"
    and "coord s \<noteq> Returned None \<Longrightarrow> stdout s = None"
  using assms unfolding invariant_def by blast+

lemma invariantI:
  assumes "accounted body evs s"
    and "files s = appends (performed s)"
    and "rcount s + (if reporter s = Counting then 1 else 0) = length (sends (performed s))"
    and "\<And>rest r. coord s = Walking rest r \<Longrightarrow> r = err"
    and "coord s = Waiting \<or> coord s = Draining \<or> coord s = Returned None \<Longrightarrow> err = None"
    and "\<And>e. coord s = Returned (Some e) \<Longrightarrow> err = Some e"
    and "coord s = Draining \<or> coord s = Returned None \<Longrightarrow> list_all (\<lambda>w. w = []) (workers s)"
    and "reporter s = Exited \<Longrightarrow> coord s = Draining \<or> coord s = Returned None"
    and "reporter s \<noteq> NotStarted"
    and "coord s = Returned None \<Longrightarrow> reporter s = Exited \<and> stdout s = Some (render format (files s))"
    and "coord s \<noteq> Returned None \<Longrightarrow> stdout s = None"
  shows "invariant body format err evs s"
  unfolding invariant_def using assms by blast

lemma invariant_worker:
  assumes inv: "invariant body format err evs s" and st: "worker_next i s = Some s'"
  shows "invariant body format err evs s'"
  using st
proof (rule worker_next_fields)
  fix a rest
  assume h: "running (coord s)" "i < length (workers s)" "workers s ! i = a # rest"
    "coord s' = coord s" "visited s' = visited s" "workers s' = (workers s)[i := rest]"
    "performed s' = performed s @ [a]" "stdout s' = stdout s" "rcount s' = rcount s" "stderr s' = stderr s"
    "files s' = files s @ appends [a]"
    "reporter s' = (if sends [a] = [] then reporter s else Counting)"
    "sends [a] \<noteq> [] \<Longrightarrow> reporter s = Receiving"
  note d = invariantD[OF inv]
  have nil: "\<not> list_all (\<lambda>w. w = []) (workers s)"
    using list_all_nil_update[OF _ h(2,3)] by blast
  with d(7) have nd: "coord s \<noteq> Draining" "coord s \<noteq> Returned None" by blast+
  show ?thesis
  proof (rule invariantI)
    show "accounted body evs s'"
      by (rule accounted_worker[OF d(1) h(2,3,4,5,6,7)])
    show "files s' = appends (performed s')"
      using d(2) h(7,11) by (simp add: appends_append)
    show "rcount s' + (if reporter s' = Counting then 1 else 0) = length (sends (performed s'))"
    proof (cases "sends [a] = []")
      case True
      with d(3) h(7,9,12) show ?thesis by (simp add: sends_append)
    next
      case False
      then have "length (sends [a]) = 1" by (cases a) simp_all
      with False d(3) h(7,9,12) h(13)[OF False] show ?thesis by (simp add: sends_append)
    qed
    show "\<And>rest r. coord s' = Walking rest r \<Longrightarrow> r = err" using d(4) h(4) by simp
    show "coord s' = Waiting \<or> coord s' = Draining \<or> coord s' = Returned None \<Longrightarrow> err = None"
      using d(5) h(4) by simp
    show "\<And>e. coord s' = Returned (Some e) \<Longrightarrow> err = Some e" using d(6) h(4) by simp
    show "coord s' = Draining \<or> coord s' = Returned None \<Longrightarrow> list_all (\<lambda>w. w = []) (workers s')"
      using nd h(4) by simp
    show "reporter s' = Exited \<Longrightarrow> coord s' = Draining \<or> coord s' = Returned None"
      using d(8) h(4,12) by (simp split: if_splits)
    show "reporter s' \<noteq> NotStarted" using d(9) h(12) by simp
    show "coord s' = Returned None \<Longrightarrow> reporter s' = Exited \<and> stdout s' = Some (render format (files s'))"
      using nd h(4) by simp
    show "coord s' \<noteq> Returned None \<Longrightarrow> stdout s' = None"
      using d(11) h(4,8) by simp
  qed
qed

lemma invariant_reporter:
  assumes inv: "invariant body format err evs s" and st: "reporter_next s = Some s'"
  shows "invariant body format err evs s'"
proof -
  note d = invariantD[OF inv]
  from reporter_next_SomeD[OF st] have run: "running (coord s)" and
    cases: "(reporter s = Counting \<and> s' = s\<lparr>reporter := Receiving, rcount := rcount s + 1,
                     stderr := stderr s @ (if (rcount s + 1) mod 100 = 0 then [Processed (rcount s + 1)] else [])\<rparr>)
      \<or> (reporter s = Receiving \<and> coord s = Draining \<and> s' = s\<lparr>reporter := Exited, stderr := stderr s @ [ProcessedFinal (rcount s)]\<rparr>)"
    by blast+
  from cases have same: "coord s' = coord s" "visited s' = visited s" "workers s' = workers s"
    "performed s' = performed s" "files s' = files s" "stdout s' = stdout s"
    by auto
  from cases have rep: "(reporter s = Counting \<and> reporter s' = Receiving \<and> rcount s' = rcount s + 1)
      \<or> (reporter s = Receiving \<and> coord s = Draining \<and> reporter s' = Exited \<and> rcount s' = rcount s)"
    by auto
  from run have nr: "coord s \<noteq> Returned None" by auto
  show ?thesis
  proof (rule invariantI)
    show "accounted body evs s'"
      using d(1) accounted_same[OF same(1,2,3,4)] by simp
    show "files s' = appends (performed s')" using d(2) same by simp
    show "rcount s' + (if reporter s' = Counting then 1 else 0) = length (sends (performed s'))"
      using d(3) same(4) rep by auto
    show "\<And>rest r. coord s' = Walking rest r \<Longrightarrow> r = err" using d(4) same(1) by simp
    show "coord s' = Waiting \<or> coord s' = Draining \<or> coord s' = Returned None \<Longrightarrow> err = None"
      using d(5) same(1) by simp
    show "\<And>e. coord s' = Returned (Some e) \<Longrightarrow> err = Some e" using d(6) same(1) by simp
    show "coord s' = Draining \<or> coord s' = Returned None \<Longrightarrow> list_all (\<lambda>w. w = []) (workers s')"
      using d(7) same(1,3) by simp
    show "reporter s' = Exited \<Longrightarrow> coord s' = Draining \<or> coord s' = Returned None"
      using rep same(1) by auto
    show "reporter s' \<noteq> NotStarted" using rep by auto
    show "coord s' = Returned None \<Longrightarrow> reporter s' = Exited \<and> stdout s' = Some (render format (files s'))"
      using nr same(1) by simp
    show "coord s' \<noteq> Returned None \<Longrightarrow> stdout s' = None"
      using d(11) same(1,6) by simp
  qed
qed

lemma invariant_coordinator:
  assumes inv: "invariant body format err evs s" and st: "coord_next body format (coord s) s = Some s'"
  shows "invariant body format err evs s'"
proof -
  note d = invariantD[OF inv]
  from coord_next_SomeD[OF st] show ?thesis
  proof (elim disjE exE conjE)
    fix p rest r assume c: "coord s = Walking (Call p # rest) r" "s' = s\<lparr>coord := Walking rest r, visited := visited s @ [p]\<rparr>"
    have acc: "accounted body evs s'"
      by (rule accounted_call[OF d(1) c(1)]) (simp_all add: c(2))
    show ?thesis
    proof (rule invariantI[OF acc])
      show "files s' = appends (performed s')" using d(2) c by simp
      show "rcount s' + (if reporter s' = Counting then 1 else 0) = length (sends (performed s'))"
        using d(3) c by simp
      show "\<And>rest' r'. coord s' = Walking rest' r' \<Longrightarrow> r' = err" using d(4)[OF c(1)] c(2) by simp
      show "coord s' = Waiting \<or> coord s' = Draining \<or> coord s' = Returned None \<Longrightarrow> err = None"
        using c by simp
      show "\<And>e. coord s' = Returned (Some e) \<Longrightarrow> err = Some e" using c by simp
      show "coord s' = Draining \<or> coord s' = Returned None \<Longrightarrow> list_all (\<lambda>w. w = []) (workers s')"
        using c by simp
      show "reporter s' = Exited \<Longrightarrow> coord s' = Draining \<or> coord s' = Returned None"
        using d(8) c by simp
      show "reporter s' \<noteq> NotStarted" using d(9) c by simp
      show "coord s' = Returned None \<Longrightarrow> reporter s' = Exited \<and> stdout s' = Some (render format (files s'))"
        using c by simp
      show "coord s' \<noteq> Returned None \<Longrightarrow> stdout s' = None" using d(11) c by simp
    qed
  next
    fix p rel rest r assume c: "coord s = Walking (Go p rel # rest) r" "s' = s\<lparr>coord := Walking rest r, workers := workers s @ [body p rel]\<rparr>"
    have acc: "accounted body evs s'"
      by (rule accounted_go[OF d(1) c(1)]) (simp_all add: c(2))
    show ?thesis
    proof (rule invariantI[OF acc])
      show "files s' = appends (performed s')" using d(2) c by simp
      show "rcount s' + (if reporter s' = Counting then 1 else 0) = length (sends (performed s'))"
        using d(3) c by simp
      show "\<And>rest' r'. coord s' = Walking rest' r' \<Longrightarrow> r' = err" using d(4)[OF c(1)] c(2) by simp
      show "coord s' = Waiting \<or> coord s' = Draining \<or> coord s' = Returned None \<Longrightarrow> err = None"
        using c by simp
      show "\<And>e. coord s' = Returned (Some e) \<Longrightarrow> err = Some e" using c by simp
      show "coord s' = Draining \<or> coord s' = Returned None \<Longrightarrow> list_all (\<lambda>w. w = []) (workers s')"
        using c by simp
      show "reporter s' = Exited \<Longrightarrow> coord s' = Draining \<or> coord s' = Returned None"
        using d(8) c by simp
      show "reporter s' \<noteq> NotStarted" using d(9) c by simp
      show "coord s' = Returned None \<Longrightarrow> reporter s' = Exited \<and> stdout s' = Some (render format (files s'))"
        using c by simp
      show "coord s' \<noteq> Returned None \<Longrightarrow> stdout s' = None" using d(11) c by simp
    qed
  next
    assume c: "coord s = Walking [] None" "s' = s\<lparr>coord := Waiting\<rparr>"
    have acc: "accounted body evs s'"
      by (rule accounted_moved[OF d(1) c(1)]) (simp_all add: c(2))
    show ?thesis
    proof (rule invariantI[OF acc])
      show "files s' = appends (performed s')" using d(2) c by simp
      show "rcount s' + (if reporter s' = Counting then 1 else 0) = length (sends (performed s'))"
        using d(3) c by simp
      show "\<And>rest' r'. coord s' = Walking rest' r' \<Longrightarrow> r' = err" using c(2) by simp
      show "coord s' = Waiting \<or> coord s' = Draining \<or> coord s' = Returned None \<Longrightarrow> err = None"
        using d(4)[OF c(1)] by simp
      show "\<And>e. coord s' = Returned (Some e) \<Longrightarrow> err = Some e" using c by simp
      show "coord s' = Draining \<or> coord s' = Returned None \<Longrightarrow> list_all (\<lambda>w. w = []) (workers s')"
        using c by simp
      show "reporter s' = Exited \<Longrightarrow> coord s' = Draining \<or> coord s' = Returned None"
        using d(8) c by simp
      show "reporter s' \<noteq> NotStarted" using d(9) c by simp
      show "coord s' = Returned None \<Longrightarrow> reporter s' = Exited \<and> stdout s' = Some (render format (files s'))"
        using c by simp
      show "coord s' \<noteq> Returned None \<Longrightarrow> stdout s' = None" using d(11) c by simp
    qed
  next
    fix e assume c: "coord s = Walking [] (Some e)" "s' = s\<lparr>coord := Returned (Some e)\<rparr>"
    have acc: "accounted body evs s'"
      by (rule accounted_moved[OF d(1) c(1)]) (simp_all add: c(2))
    show ?thesis
    proof (rule invariantI[OF acc])
      show "files s' = appends (performed s')" using d(2) c by simp
      show "rcount s' + (if reporter s' = Counting then 1 else 0) = length (sends (performed s'))"
        using d(3) c by simp
      show "\<And>rest' r'. coord s' = Walking rest' r' \<Longrightarrow> r' = err" using c(2) by simp
      show "coord s' = Waiting \<or> coord s' = Draining \<or> coord s' = Returned None \<Longrightarrow> err = None"
        using c by simp
      show "\<And>e'. coord s' = Returned (Some e') \<Longrightarrow> err = Some e'" using d(4)[OF c(1)] c(2) by simp
      show "coord s' = Draining \<or> coord s' = Returned None \<Longrightarrow> list_all (\<lambda>w. w = []) (workers s')"
        using c by simp
      show "reporter s' = Exited \<Longrightarrow> coord s' = Draining \<or> coord s' = Returned None"
        using d(8) c by simp
      show "reporter s' \<noteq> NotStarted" using d(9) c by simp
      show "coord s' = Returned None \<Longrightarrow> reporter s' = Exited \<and> stdout s' = Some (render format (files s'))"
        using c by simp
      show "coord s' \<noteq> Returned None \<Longrightarrow> stdout s' = None" using d(11) c by simp
    qed
  next
    assume c: "coord s = Waiting" "list_all (\<lambda>w. w = []) (workers s)" "s' = s\<lparr>coord := Draining\<rparr>"
    have acc: "accounted body evs s'"
      by (rule accounted_still[OF d(1)]) (simp_all add: c)
    show ?thesis
    proof (rule invariantI[OF acc])
      show "files s' = appends (performed s')" using d(2) c by simp
      show "rcount s' + (if reporter s' = Counting then 1 else 0) = length (sends (performed s'))"
        using d(3) c by simp
      show "\<And>rest' r'. coord s' = Walking rest' r' \<Longrightarrow> r' = err" using c by simp
      show "coord s' = Waiting \<or> coord s' = Draining \<or> coord s' = Returned None \<Longrightarrow> err = None"
        using d(5) c by simp
      show "\<And>e. coord s' = Returned (Some e) \<Longrightarrow> err = Some e" using c by simp
      show "coord s' = Draining \<or> coord s' = Returned None \<Longrightarrow> list_all (\<lambda>w. w = []) (workers s')"
        using c by simp
      show "reporter s' = Exited \<Longrightarrow> coord s' = Draining \<or> coord s' = Returned None"
        using c by simp
      show "reporter s' \<noteq> NotStarted" using d(9) c by simp
      show "coord s' = Returned None \<Longrightarrow> reporter s' = Exited \<and> stdout s' = Some (render format (files s'))"
        using c by simp
      show "coord s' \<noteq> Returned None \<Longrightarrow> stdout s' = None" using d(11) c by simp
    qed
  next
    assume c: "coord s = Draining" "reporter s = Exited" "s' = s\<lparr>coord := Returned None, stdout := Some (render format (files s))\<rparr>"
    have acc: "accounted body evs s'"
      by (rule accounted_still[OF d(1)]) (simp_all add: c)
    show ?thesis
    proof (rule invariantI[OF acc])
      show "files s' = appends (performed s')" using d(2) c by simp
      show "rcount s' + (if reporter s' = Counting then 1 else 0) = length (sends (performed s'))"
        using d(3) c by simp
      show "\<And>rest' r'. coord s' = Walking rest' r' \<Longrightarrow> r' = err" using c by simp
      show "coord s' = Waiting \<or> coord s' = Draining \<or> coord s' = Returned None \<Longrightarrow> err = None"
        using d(5) c by simp
      show "\<And>e. coord s' = Returned (Some e) \<Longrightarrow> err = Some e" using c by simp
      show "coord s' = Draining \<or> coord s' = Returned None \<Longrightarrow> list_all (\<lambda>w. w = []) (workers s')"
        using d(7) c by simp
      show "reporter s' = Exited \<Longrightarrow> coord s' = Draining \<or> coord s' = Returned None"
        using c by simp
      show "reporter s' \<noteq> NotStarted" using d(9) c by simp
      show "coord s' = Returned None \<Longrightarrow> reporter s' = Exited \<and> stdout s' = Some (render format (files s'))"
        using c by simp
      show "coord s' \<noteq> Returned None \<Longrightarrow> stdout s' = None" using c by simp
    qed
  qed
qed

lemma invariant_step:
  "step body format s s' \<Longrightarrow> invariant body format err evs s \<Longrightarrow> invariant body format err evs s'"
  by (induction rule: step.induct)
     (blast intro: invariant_coordinator invariant_worker invariant_reporter)+

lemma invariant_steps:
  "(step body format)\<^sup>*\<^sup>* s s' \<Longrightarrow> invariant body format err evs s \<Longrightarrow> invariant body format err evs s'"
  by (induction rule: rtranclp_induct) (blast intro: invariant_step)+

lemma invariant_reachable:
  "(step body format)\<^sup>*\<^sup>* (listFiles_init err evs) s \<Longrightarrow> invariant body format err evs s"
  using invariant_steps invariant_init by blast

subsection \<open>What a run has done, and that it ends\<close>

lemma performed_origin:
  assumes "invariant body format err evs s" "a \<in> set (performed s)"
  shows "\<exists>p rel. Go p rel \<in> set evs \<and> a \<in> set (body p rel)"
proof -
  from invariantD(1)[OF assms(1)] obtain pre where pre: "evs = pre @ pending (coord s)"
     "mset (performed s) + mset (concat (workers s)) = mset (concat (started_bodies body pre))"
    unfolding accounted_def by blast
  from assms(2) have "a \<in># mset (performed s) + mset (concat (workers s))" by simp
  with pre(2) have "a \<in> set (concat (started_bodies body pre))" by (metis set_mset_mset)
  then obtain p rel where "(p, rel) \<in> set (spawned pre)" "a \<in> set (body p rel)"
    by (auto simp: started_bodies_def)
  with pre(1) show ?thesis by (auto simp: in_spawned)
qed

lemma files_origin:
  assumes "invariant body format err evs s" "fc \<in> set (files s)"
  shows "\<exists>p rel. Go p rel \<in> set evs \<and> Append fc \<in> set (body p rel)"
  using performed_origin[OF assms(1), of "Append fc"] assms(2) invariantD(2)[OF assms(1)]
  by (simp add: in_appends)

lemma returned_accounting:
  assumes inv: "invariant body format err evs s" and r: "coord s = Returned None"
  shows "mset (performed s) = mset (concat (started_bodies body evs))"
    and "visited s = called evs"
    and "mset (files s) = mset (appends (concat (started_bodies body evs)))"
    and "rcount s = length (sends (concat (started_bodies body evs)))"
proof -
  from invariantD(1)[OF inv] obtain pre where pre: "evs = pre @ pending (coord s)" "visited s = called pre"
     "mset (performed s) + mset (concat (workers s)) = mset (concat (started_bodies body pre))"
    unfolding accounted_def by blast
  from invariantD(7)[OF inv] r have "list_all (\<lambda>w. w = []) (workers s)" by simp
  then have "concat (workers s) = []" by (simp add: list_all_iff)
  with pre r show p: "mset (performed s) = mset (concat (started_bodies body evs))"
    and "visited s = called evs" by simp_all
  from mset_appends_cong[OF p] invariantD(2)[OF inv]
  show "mset (files s) = mset (appends (concat (started_bodies body evs)))" by simp
  from invariantD(10)[OF inv r] have "reporter s = Exited" by simp
  with invariantD(3)[OF inv] have "rcount s = length (sends (performed s))" by simp
  also have "\<dots> = size (mset (sends (performed s)))" by simp
  also have "\<dots> = size (mset (sends (concat (started_bodies body evs))))"
    using mset_sends_cong[OF p] by simp
  finally show "rcount s = length (sends (concat (started_bodies body evs)))" by simp
qed

lemma returned_value:
  assumes inv: "invariant body format err evs s" and r: "\<not> running (coord s)"
  shows "coord s = Returned err"
proof -
  from r obtain x where x: "coord s = Returned x" by (cases "coord s") auto
  show ?thesis
  proof (cases x)
    case None
    with x invariantD(5)[OF inv] show ?thesis by simp
  next
    case (Some e)
    with x invariantD(6)[OF inv, of e] show ?thesis by simp
  qed
qed

lemma progress:
  assumes inv: "invariant body format err evs s" and r: "running (coord s)"
  shows "\<exists>s'. step body format s s'"
proof (cases "coord s")
  case (Walking rest x)
  have "\<exists>s'. coord_next body format (Walking rest x) s = Some s'"
    by (cases "(body, format, Walking rest x, s)" rule: coord_next.cases) auto
  then obtain s' where "coord_next body format (coord s) s = Some s'" using Walking by auto
  then show ?thesis by (blast intro: step.coordinator)
next
  case Waiting
  show ?thesis
  proof (cases "list_all (\<lambda>w. w = []) (workers s)")
    case True
    with Waiting have "coord_next body format (coord s) s = Some (s\<lparr>coord := Draining\<rparr>)" by simp
    then show ?thesis by (blast intro: step.coordinator)
  next
    case False
    then obtain i where i: "i < length (workers s)" "workers s ! i \<noteq> []"
      by (auto simp: list_all_length)
    then obtain a rest where w: "workers s ! i = a # rest" by (cases "workers s ! i") auto
    from invariantD(8)[OF inv] Waiting have ne: "reporter s \<noteq> Exited" by auto
    show ?thesis
    proof (cases "reporter s")
      case NotStarted
      with invariantD(9)[OF inv] show ?thesis by simp
    next
      case Receiving
      with r i w have "\<exists>s'. worker_next i s = Some s'"
        by (cases a) (auto simp: worker_next_def Let_def)
      then show ?thesis by (blast intro: step.worker)
    next
      case Counting
      with r have "\<exists>s'. reporter_next s = Some s'" by (simp add: reporter_next_def)
      then show ?thesis by (blast intro: step.reporter)
    next
      case Exited
      with ne show ?thesis by simp
    qed
  qed
next
  case Draining
  show ?thesis
  proof (cases "reporter s")
    case NotStarted
    with invariantD(9)[OF inv] show ?thesis by simp
  next
    case Receiving
    with Draining have "\<exists>s'. reporter_next s = Some s'" by (simp add: reporter_next_def)
    then show ?thesis by (blast intro: step.reporter)
  next
    case Counting
    with Draining have "\<exists>s'. reporter_next s = Some s'" by (simp add: reporter_next_def)
    then show ?thesis by (blast intro: step.reporter)
  next
    case Exited
    with Draining have "\<exists>s'. coord_next body format (coord s) s = Some s'" by simp
    then show ?thesis by (blast intro: step.coordinator)
  qed
next
  case (Returned x)
  with r show ?thesis by simp
qed

lemma completes:
  "invariant body format err evs s \<Longrightarrow> \<exists>t. (step body format)\<^sup>*\<^sup>* s t \<and> \<not> running (coord t)"
proof (induction "remaining body s" arbitrary: s rule: less_induct)
  case less
  show ?case
  proof (cases "running (coord s)")
    case False
    then show ?thesis by blast
  next
    case True
    from progress[OF less.prems True] obtain s' where st: "step body format s s'" by blast
    from less.hyps[OF step_remaining[OF st] invariant_step[OF st less.prems]]
    obtain t where "(step body format)\<^sup>*\<^sup>* s' t" "\<not> running (coord t)" by blast
    with st show ?thesis by (blast intro: converse_rtranclp_into_rtranclp)
  qed
qed

lemma files_within_limit:
  assumes "(step (goroutine os format) format)\<^sup>*\<^sup>* (listFiles_init err evs) s" "fc \<in> set (files s)"
  shows "\<exists>p sz. Go p (Path fc) \<in> set evs \<and> os_Stat os p = Inr sz \<and> sint sz \<le> maxFileSize"
proof -
  from files_origin[OF invariant_reachable[OF assms(1)] assms(2)]
  obtain p rel where g: "Go p rel \<in> set evs" "Append fc \<in> set (goroutine os format p rel)" by blast
  from processFile_append[OF g(2)[unfolded goroutine_def]] g(1) show ?thesis by blast
qed

lemma length_sends_bodies:
  "length (sends (concat (started_bodies (goroutine os format) evs))) =
   length (appends (concat (started_bodies (goroutine os format) evs)))"
proof -
  have "\<And>ts. length (sends (concat (map (\<lambda>(p, rel). goroutine os format p rel) ts))) =
             length (appends (concat (map (\<lambda>(p, rel). goroutine os format p rel) ts)))"
  proof -
    fix ts :: "(string \<times> string) list"
    show "length (sends (concat (map (\<lambda>(p, rel). goroutine os format p rel) ts))) =
             length (appends (concat (map (\<lambda>(p, rel). goroutine os format p rel) ts)))"
      by (induction ts) (auto simp: sends_append appends_append goroutine_def length_sends_processFile)
  qed
  then show ?thesis by (simp add: started_bodies_def)
qed

lemma returned_count:
  assumes "(step (goroutine os format) format)\<^sup>*\<^sup>* (listFiles_init err evs) s" "coord s = Returned None"
  shows "rcount s = length (files s)"
proof -
  note inv = invariant_reachable[OF assms(1)]
  from returned_accounting(3)[OF inv assms(2)]
  have "length (files s) = length (appends (concat (started_bodies (goroutine os format) evs)))"
    by (metis size_mset)
  with returned_accounting(4)[OF inv assms(2)] length_sends_bodies[of os format evs]
  show ?thesis by simp
qed

lemma mset_logged_bodies:
  "Go p rel \<in> set evs \<Longrightarrow> m \<in> set (logged (body p rel)) \<Longrightarrow>
   m \<in> set (logged (concat (started_bodies body evs)))"
proof -
  assume a: "Go p rel \<in> set evs" "m \<in> set (logged (body p rel))"
  have in_logged: "\<And>xs. m \<in> set (logged xs) \<longleftrightarrow> Log m \<in> set xs"
  proof -
    fix xs show "m \<in> set (logged xs) \<longleftrightarrow> Log m \<in> set xs"
      by (induction xs rule: logged.induct) auto
  qed
  from a have "Log m \<in> set (concat (started_bodies body evs))"
    by (auto simp: in_logged started_bodies_def in_spawned intro!: bexI[of _ "(p, rel)"])
  then show ?thesis by (simp add: in_logged)
qed

lemma list_run_facts:
  assumes "(step (goroutine os ''list'') ''list'')\<^sup>*\<^sup>* (listFiles_init err evs) s"
  shows "reads (performed s) = []" and "\<forall>fc \<in> set (files s). Content fc = []"
proof -
  note inv = invariant_reachable[OF assms]
  have "\<And>p. ReadFile p \<notin> set (performed s)"
  proof
    fix p assume "ReadFile p \<in> set (performed s)"
    from performed_origin[OF inv this] obtain q rel where "ReadFile p \<in> set (processFile os q rel False)"
      by (auto simp: goroutine_def)
    then have "p \<in> set (reads (processFile os q rel False))" by (simp add: in_reads)
    then show False by (simp add: processFile_no_read)
  qed
  then show "reads (performed s) = []"
    by (cases "reads (performed s)") (auto simp: in_reads[symmetric])
  show "\<forall>fc \<in> set (files s). Content fc = []"
  proof
    fix fc assume "fc \<in> set (files s)"
    from files_origin[OF inv this] obtain q rel where "Append fc \<in> set (processFile os q rel False)"
      by (auto simp: goroutine_def)
    from processFile_append[OF this] show "Content fc = []" by simp
  qed
qed

lemma stalled_D:
  assumes "stalled i s"
  obtains rel rest where "running (coord s)" "i < length (workers s)" "workers s ! i = Send rel # rest"
    "reporter s \<noteq> Receiving"
proof -
  from assms have r: "running (coord s)" and i: "i < length (workers s)"
    and c: "(case workers s ! i of Send rel # rest \<Rightarrow> worker_next i s = None | _ \<Rightarrow> False)"
    by (simp_all add: stalled_def)
  from c obtain rel rest where w: "workers s ! i = Send rel # rest" and n: "worker_next i s = None"
    by (auto split: list.splits action.splits)
  from n r i w have "reporter s \<noteq> Receiving"
    by (auto simp: worker_next_def Let_def)
  with r i w show ?thesis by (rule that)
qed

lemma stalled_reporter_counting:
  assumes inv: "invariant body format err evs s" and st: "stalled i s"
  shows "reporter s = Counting \<and>
         (\<exists>s'. reporter_next s = Some s' \<and> reporter s' = Receiving \<and> \<not> stalled i s' \<and> worker_next i s' \<noteq> None)"
  using st
proof (rule stalled_D)
  fix rel rest
  assume h: "running (coord s)" "i < length (workers s)" "workers s ! i = Send rel # rest"
    "reporter s \<noteq> Receiving"
  have nil: "\<not> list_all (\<lambda>w. w = []) (workers s)"
    using list_all_nil_update[OF _ h(2,3)] by blast
  with invariantD(7)[OF inv] invariantD(8)[OF inv] have "reporter s \<noteq> Exited" by blast
  with h(4) invariantD(9)[OF inv] have c: "reporter s = Counting" by (cases "reporter s") auto
  let ?s' = "s\<lparr>reporter := Receiving, rcount := rcount s + 1,
               stderr := stderr s @ (if (rcount s + 1) mod 100 = 0 then [Processed (rcount s + 1)] else [])\<rparr>"
  from c h(1) have n: "reporter_next s = Some ?s'" by (simp add: reporter_next_def)
  from h(1,2,3) have w: "worker_next i ?s' \<noteq> None" by (simp add: worker_next_def Let_def)
  then have "\<not> stalled i ?s'" using h(2,3) by (simp add: stalled_def)
  with c n w show ?thesis by simp
qed

subsection \<open>Runs of listFiles and of main\<close>

lemma listFiles_ran:
  assumes "listFiles os cps rootName tree baseDir format s"
    and "openMatcher os baseDir = Inr matcher"
    and "listFiles_walk os cps matcher rootName tree baseDir = (err, evs)"
  shows "(step (goroutine os format) format)\<^sup>*\<^sup>* (listFiles_init (map_option (WalkingThePath baseDir) err) evs) s
         \<and> \<not> running (coord s)"
  using assms by (auto elim!: listFiles.cases)

lemma listFiles_exists:
  assumes "openMatcher os baseDir = Inr matcher"
  shows "\<exists>s. listFiles os cps rootName tree baseDir format s"
proof -
  obtain err evs where w: "listFiles_walk os cps matcher rootName tree baseDir = (err, evs)"
    by (cases "listFiles_walk os cps matcher rootName tree baseDir")
  from completes[OF invariant_init, of "goroutine os format" format "map_option (WalkingThePath baseDir) err" evs]
  obtain t where "(step (goroutine os format) format)\<^sup>*\<^sup>* (listFiles_init (map_option (WalkingThePath baseDir) err) evs) t"
    "\<not> running (coord t)" by blast
  from listFiles.ran[OF assms w this] show ?thesis by blast
qed

lemma Action_listOnly:
  "Action os directory format True excludePatterns = Inr (baseDir, format', cps) \<Longrightarrow> format' = ''list''"
  by (auto simp: Action_def Let_def split: if_splits sum.splits)

lemma Action_without_list_invalid:
  "format \<noteq> ''text'' \<Longrightarrow> format \<noteq> ''json'' \<Longrightarrow>
   Action os directory format False excludePatterns =
     Inl (if os_Stat_IsNotExist os directory then DirectoryDoesNotExist else InvalidFormat)"
  by (simp add: Action_def)

lemma Action_list_ignores_format:
  "Action os directory format True excludePatterns = Action os directory format' True excludePatterns"
  by (simp add: Action_def)

lemma main_list_ignores_format:
  "main os rootName tree directory format True excludePatterns s \<Longrightarrow>
   main os rootName tree directory format' True excludePatterns s"
proof (induction rule: main.induct)
  case (not_started e)
  then have "Action os directory format' True excludePatterns = Inl e"
    using Action_list_ignores_format[of os directory format' excludePatterns format] by simp
  then show ?case by (rule main.not_started)
next
  case (started baseDir fmt cps s)
  then have "Action os directory format' True excludePatterns = Inr (baseDir, fmt, cps)"
    using Action_list_ignores_format[of os directory format' excludePatterns format] by simp
  then show ?case using started(2) by (rule main.started)
qed

subsection \<open>The example run\<close>

lemma ex_walk: "listFiles_walk ex_os [] no_match ''r'' ex_tree ''/r'' = (None, ex_events)"
  by code_simp

lemma ex_run1:
  "schedule (goroutine ex_os ''list'') ''list'' ex_schedule1 (listFiles_init None ex_events) = Some ex_final1"
  by code_simp

lemma ex_run2:
  "schedule (goroutine ex_os ''list'') ''list'' ex_schedule2 (listFiles_init None ex_events) = Some ex_final2"
  by code_simp

lemma ex_run3:
  "schedule (goroutine ex_os ''list'') ''list'' ex_schedule3 (listFiles_init None ex_events) = Some ex_stalled"
  by code_simp

lemma ex_stalled_1: "stalled 1 ex_stalled"
  by code_simp

lemma ex_openMatcher: "openMatcher ex_os ''/r'' = Inr (gitignore_NewMatcher ex_os [])"
  by (simp add: openMatcher_def ex_os_def)

lemma ex_matcher: "gitignore_NewMatcher ex_os [] = no_match"
  by (simp add: ex_os_def no_match_def)

lemma ex_openMatcher': "openMatcher ex_os ''/r'' = Inr no_match"
  using ex_openMatcher ex_matcher by simp

lemma ex_action: "Action ex_os ''/r'' ''text'' True [] = Inr (''/r'', ''list'', [])"
  by (simp add: Action_def ex_os_def)

lemma ex_action_xml: "Action ex_os ''/r'' ''xml'' True [] = Inr (''/r'', ''list'', [])"
  by (simp add: Action_def ex_os_def)

lemma ex_steps1: "(step (goroutine ex_os ''list'') ''list'')\<^sup>*\<^sup>* (listFiles_init None ex_events) ex_final1"
  by (rule schedule_steps[OF ex_run1])

lemma ex_steps2: "(step (goroutine ex_os ''list'') ''list'')\<^sup>*\<^sup>* (listFiles_init None ex_events) ex_final2"
  by (rule schedule_steps[OF ex_run2])

lemma ex_steps3: "(step (goroutine ex_os ''list'') ''list'')\<^sup>*\<^sup>* (listFiles_init None ex_events) ex_stalled"
  by (rule schedule_steps[OF ex_run3])

lemma ex_listFiles1: "listFiles ex_os [] ''r'' ex_tree ''/r'' ''list'' ex_final1"
  by (rule listFiles.ran[OF ex_openMatcher' ex_walk]) (simp_all add: ex_steps1, simp add: ex_final1_def)

lemma ex_listFiles2: "listFiles ex_os [] ''r'' ex_tree ''/r'' ''list'' ex_final2"
  by (rule listFiles.ran[OF ex_openMatcher' ex_walk]) (simp_all add: ex_steps2, simp add: ex_final2_def)

section \<open>The claims\<close>

text \<open>
  C1. Let the walk complete without a walk-level error. The walk function is called
  exactly on the entries that no excluded directory hides, once each and in the order of
  the listing, so an excluded directory is never descended into; and a goroutine is
  started exactly for the files among them that \<^verbatim>\<open>shouldExclude\<close> does not exclude, once
  each. In every state of every run each effect performed is an effect of one of these
  goroutines, and each record of the result set carries the relative path of one of them.
\<close>

theorem C1_classified_exactly_once:
  assumes "listFiles_walk os cps matcher rootName tree baseDir = (None, evs)"
    and "(step (goroutine os format) format)\<^sup>*\<^sup>* (listFiles_init None evs) s"
  shows "called evs = visible (under (filepath_Join os) (excluded os cps matcher baseDir) False baseDir rootName tree) \<and>
         spawned evs = survivors os cps matcher baseDir
                         (under (filepath_Join os) (excluded os cps matcher baseDir) False baseDir rootName tree) \<and>
         (\<forall>a \<in> set (performed s). \<exists>(p, rel) \<in> set (spawned evs). a \<in> set (processFile os p rel (format \<noteq> ''list''))) \<and>
         (\<forall>fc \<in> set (files s). \<exists>(p, rel) \<in> set (spawned evs). Path fc = rel)"
proof (intro conjI ballI)
  show "called evs = visible (under (filepath_Join os) (excluded os cps matcher baseDir) False baseDir rootName tree)"
    by (rule listFiles_walk_shape(1)[OF assms(1)])
  show "spawned evs = survivors os cps matcher baseDir
          (under (filepath_Join os) (excluded os cps matcher baseDir) False baseDir rootName tree)"
    by (rule listFiles_walk_shape(2)[OF assms(1)])
next
  fix a assume "a \<in> set (performed s)"
  from performed_origin[OF invariant_reachable[OF assms(2)] this]
  show "\<exists>(p, rel) \<in> set (spawned evs). a \<in> set (processFile os p rel (format \<noteq> ''list''))"
    by (auto simp: in_spawned[symmetric] goroutine_def)
next
  fix fc assume "fc \<in> set (files s)"
  from files_origin[OF invariant_reachable[OF assms(2)] this]
  obtain p rel where g: "Go p rel \<in> set evs" "Append fc \<in> set (goroutine os format p rel)" by blast
  from processFile_append[OF g(2)[unfolded goroutine_def]] have "Path fc = rel" by simp
  with g(1) show "\<exists>(p, rel) \<in> set (spawned evs). Path fc = rel"
    by (auto simp: in_spawned[symmetric])
qed

text \<open>
  C1 at the example tree: the file under \<^verbatim>\<open>build\<close> is never visited, the file \<^verbatim>\<open>out\<close> is
  visited and excluded, the other three files are dispatched once each.
\<close>

theorem C1_witness:
  "listFiles_walk ex_os [] no_match ''r'' ex_tree ''/r'' = (None, ex_events) \<and>
   (step (goroutine ex_os ''list'') ''list'')\<^sup>*\<^sup>* (listFiles_init None ex_events) ex_final1 \<and>
   under (filepath_Join ex_os) (excluded ex_os [] no_match ''/r'') False ''/r'' ''r'' ex_tree =
     [\<lparr>e_path = ''/r'', e_name = ''r'', e_file = False, e_pruned = False\<rparr>,
      \<lparr>e_path = ''/r/a.txt'', e_name = ''a.txt'', e_file = True, e_pruned = False\<rparr>,
      \<lparr>e_path = ''/r/b.txt'', e_name = ''b.txt'', e_file = True, e_pruned = False\<rparr>,
      \<lparr>e_path = ''/r/build'', e_name = ''build'', e_file = False, e_pruned = False\<rparr>,
      \<lparr>e_path = ''/r/build/out.o'', e_name = ''out.o'', e_file = True, e_pruned = True\<rparr>,
      \<lparr>e_path = ''/r/gone'', e_name = ''gone'', e_file = True, e_pruned = False\<rparr>,
      \<lparr>e_path = ''/r/out'', e_name = ''out'', e_file = True, e_pruned = False\<rparr>] \<and>
   called ex_events = [''/r'', ''/r/a.txt'', ''/r/b.txt'', ''/r/build'', ''/r/gone'', ''/r/out''] \<and>
   spawned ex_events = [(''/r/a.txt'', ''a.txt''), (''/r/b.txt'', ''b.txt''), (''/r/gone'', ''gone'')] \<and>
   called ex_events = visible (under (filepath_Join ex_os) (excluded ex_os [] no_match ''/r'') False ''/r'' ''r'' ex_tree) \<and>
   spawned ex_events = survivors ex_os [] no_match ''/r''
                         (under (filepath_Join ex_os) (excluded ex_os [] no_match ''/r'') False ''/r'' ''r'' ex_tree) \<and>
   (\<exists>(p, rel) \<in> set (spawned ex_events). Path \<lparr>Path = ''a.txt'', Content = []\<rparr> = rel)"
proof -
  have u: "under (filepath_Join ex_os) (excluded ex_os [] no_match ''/r'') False ''/r'' ''r'' ex_tree =
     [\<lparr>e_path = ''/r'', e_name = ''r'', e_file = False, e_pruned = False\<rparr>,
      \<lparr>e_path = ''/r/a.txt'', e_name = ''a.txt'', e_file = True, e_pruned = False\<rparr>,
      \<lparr>e_path = ''/r/b.txt'', e_name = ''b.txt'', e_file = True, e_pruned = False\<rparr>,
      \<lparr>e_path = ''/r/build'', e_name = ''build'', e_file = False, e_pruned = False\<rparr>,
      \<lparr>e_path = ''/r/build/out.o'', e_name = ''out.o'', e_file = True, e_pruned = True\<rparr>,
      \<lparr>e_path = ''/r/gone'', e_name = ''gone'', e_file = True, e_pruned = False\<rparr>,
      \<lparr>e_path = ''/r/out'', e_name = ''out'', e_file = True, e_pruned = False\<rparr>]"
    by code_simp
  have c: "called ex_events = [''/r'', ''/r/a.txt'', ''/r/b.txt'', ''/r/build'', ''/r/gone'', ''/r/out'']"
    and sp: "spawned ex_events = [(''/r/a.txt'', ''a.txt''), (''/r/b.txt'', ''b.txt''), (''/r/gone'', ''gone'')]"
    by (simp_all add: ex_events_def)
  have f: "\<lparr>Path = ''a.txt'', Content = []\<rparr> \<in> set (files ex_final1)" by (simp add: ex_final1_def)
  from C1_classified_exactly_once [OF ex_walk ex_steps1] f
  have "called ex_events = visible (under (filepath_Join ex_os) (excluded ex_os [] no_match ''/r'') False ''/r'' ''r'' ex_tree) \<and>
   spawned ex_events = survivors ex_os [] no_match ''/r''
                         (under (filepath_Join ex_os) (excluded ex_os [] no_match ''/r'') False ''/r'' ''r'' ex_tree) \<and>
   (\<exists>(p, rel) \<in> set (spawned ex_events). Path \<lparr>Path = ''a.txt'', Content = []\<rparr> = rel)"
    by blast
  with ex_walk ex_steps1 u c sp show ?thesis by blast
qed

text \<open>
  C2 fails as stated: the example file \<^verbatim>\<open>gone\<close> is dispatched by the walk, its \<^verbatim>\<open>os.Stat\<close>
  fails, and its goroutine returns after the log line without a send; in the completed
  example run three files were dispatched and the reporter counted two.
\<close>

theorem C2_counterexample:
  "(''/r/gone'', ''gone'') \<in> set (spawned ex_events) \<and>
   listFiles_walk ex_os [] no_match ''r'' ex_tree ''/r'' = (None, ex_events) \<and>
   Send ''gone'' \<notin> set (processFile ex_os ''/r/gone'' ''gone'' True) \<and>
   Send ''gone'' \<notin> set (processFile ex_os ''/r/gone'' ''gone'' False) \<and>
   (step (goroutine ex_os ''list'') ''list'')\<^sup>*\<^sup>* (listFiles_init None ex_events) ex_final1 \<and>
   coord ex_final1 = Returned None \<and>
   Send ''gone'' \<notin> set (performed ex_final1) \<and>
   length (spawned ex_events) = 3 \<and> rcount ex_final1 = 2"
proof -
  have "Send ''gone'' \<notin> set (processFile ex_os ''/r/gone'' ''gone'' True)"
    and "Send ''gone'' \<notin> set (processFile ex_os ''/r/gone'' ''gone'' False)"
    by (simp_all add: processFile_def ex_os_def)
  moreover have "(''/r/gone'', ''gone'') \<in> set (spawned ex_events)" "length (spawned ex_events) = 3"
    by (simp_all add: ex_events_def)
  moreover have "coord ex_final1 = Returned None" "Send ''gone'' \<notin> set (performed ex_final1)" "rcount ex_final1 = 2"
    by (simp_all add: ex_final1_def)
  ultimately show ?thesis using ex_walk ex_steps1 by blast
qed

text \<open>
  C2, amended. The goroutine of a dispatched file sends one notification, carrying the
  relative path, exactly when it produces a record; when the file is skipped (stat
  failure, oversize, read failure) it sends none. So in a completed run the reporter has
  counted as many notifications as there are records.
\<close>

theorem C2_notification_iff_record:
  "sends (processFile os path rel readContent) =
     (if skipped os path readContent then [] else [rel]) \<and>
   (appends (processFile os path rel readContent) = []) = skipped os path readContent \<and>
   ((step (goroutine os format) format)\<^sup>*\<^sup>* (listFiles_init err evs) s \<and> coord s = Returned None \<longrightarrow>
      rcount s = length (files s))"
  using processFile_skipped[of os path readContent rel] processFile_not_skipped[of os path readContent rel]
    returned_count[of os format err evs s]
  by (cases "skipped os path readContent") auto

text \<open>
  C2 (amended) at a skipped and at a processed example file, and at the example run.
\<close>

theorem C2_witness:
  "skipped ex_os ''/r/gone'' True \<and> \<not> skipped ex_os ''/r/a.txt'' True \<and>
   sends (processFile ex_os ''/r/gone'' ''gone'' True) = [] \<and>
   appends (processFile ex_os ''/r/gone'' ''gone'' True) = [] \<and>
   sends (processFile ex_os ''/r/a.txt'' ''a.txt'' True) = [''a.txt''] \<and>
   appends (processFile ex_os ''/r/a.txt'' ''a.txt'' True) \<noteq> [] \<and>
   (step (goroutine ex_os ''list'') ''list'')\<^sup>*\<^sup>* (listFiles_init None ex_events) ex_final1 \<and>
   coord ex_final1 = Returned None \<and> rcount ex_final1 = length (files ex_final1)"
proof -
  have k: "skipped ex_os ''/r/gone'' True" "\<not> skipped ex_os ''/r/a.txt'' True"
    by (simp_all add: skipped_def ex_os_def maxFileSize_def)
  have r: "coord ex_final1 = Returned None" by (simp add: ex_final1_def)
  from k r ex_steps1
    C2_notification_iff_record [of ex_os "''/r/gone''" "''gone''" True "''list''" None ex_events ex_final1]
    C2_notification_iff_record [of ex_os "''/r/a.txt''" "''a.txt''" True "''list''" None ex_events ex_final1]
  show ?thesis by simp
qed

text \<open>
  C3 fails as stated: \<^verbatim>\<open>make(chan string)\<close> has no buffer. In a reachable state of the
  example run the second worker is at its send while the reporter is in its loop body,
  and the send cannot complete.
\<close>

theorem C3_counterexample:
  "(step (goroutine ex_os ''list'') ''list'')\<^sup>*\<^sup>* (listFiles_init None ex_events) ex_stalled \<and>
   listFiles_walk ex_os [] no_match ''r'' ex_tree ''/r'' = (None, ex_events) \<and>
   workers ex_stalled ! 1 = [Send ''b.txt''] \<and> reporter ex_stalled = Counting \<and>
   worker_next 1 ex_stalled = None \<and> stalled 1 ex_stalled"
proof -
  have "workers ex_stalled ! 1 = [Send ''b.txt'']" "reporter ex_stalled = Counting"
    by (simp_all add: ex_stalled_def)
  moreover have "worker_next 1 ex_stalled = None" by code_simp
  ultimately show ?thesis using ex_steps3 ex_walk ex_stalled_1 by blast
qed

text \<open>
  C3, amended. The notification channel is unbuffered, so a worker at its send can
  stall, but only while the reporter is in its loop body: the reporter's next step takes
  it back to the receive, where the worker's send can complete. No run deadlocks: in
  every state of a run that has not returned some step is possible, and every step
  lowers a bound, so every worker's wait ends.
\<close>

theorem C3_stall_is_bounded:
  assumes "(step body format)\<^sup>*\<^sup>* (listFiles_init err evs) s"
  shows "(running (coord s) \<longrightarrow> (\<exists>s'. step body format s s')) \<and>
         (\<forall>s'. step body format s s' \<longrightarrow> remaining body s' < remaining body s) \<and>
         (\<forall>i. stalled i s \<longrightarrow>
            reporter s = Counting \<and>
            (\<exists>s'. reporter_next s = Some s' \<and> reporter s' = Receiving \<and>
                  \<not> stalled i s' \<and> worker_next i s' \<noteq> None))"
  using progress[OF invariant_reachable[OF assms]] step_remaining[of body format s]
    stalled_reporter_counting[OF invariant_reachable[OF assms]]
  by blast

text \<open>
  C3 (amended) at the stalled state of the example run.
\<close>

theorem C3_witness:
  "(step (goroutine ex_os ''list'') ''list'')\<^sup>*\<^sup>* (listFiles_init None ex_events) ex_stalled \<and>
   running (coord ex_stalled) \<and> stalled 1 ex_stalled \<and>
   (\<exists>s'. step (goroutine ex_os ''list'') ''list'' ex_stalled s' \<and>
         remaining (goroutine ex_os ''list'') s' < remaining (goroutine ex_os ''list'') ex_stalled) \<and>
   reporter ex_stalled = Counting \<and>
   (\<exists>s'. reporter_next ex_stalled = Some s' \<and> reporter s' = Receiving \<and>
         \<not> stalled 1 s' \<and> worker_next 1 s' \<noteq> None)"
proof -
  have r: "running (coord ex_stalled)" by (simp add: ex_stalled_def)
  from C3_stall_is_bounded [OF ex_steps3] r ex_stalled_1 ex_steps3
  show ?thesis by blast
qed

text \<open>
  C4. For a file that passes the size check and is read for its content, binary
  classification looks at the first 1024 bytes only: with a null byte among them the
  record has the path and an empty content; without one, also when a null byte follows
  later, the record has the whole content. In both cases the record is appended and the
  notification sent.
\<close>

theorem C4_binary_sample:
  "os_Stat os path = Inr sz \<Longrightarrow> sint sz \<le> maxFileSize \<Longrightarrow> os_ReadFile os path = Inr content \<Longrightarrow>
   isBinary content = (CHR 0x00 \<in> set (take 1024 content)) \<and>
   processFile os path relativePath True =
     [Stat path, ReadFile path,
      Append \<lparr>Path = relativePath,
              Content = (if CHR 0x00 \<in> set (take 1024 content) then [] else content)\<rparr>,
      Send relativePath]"
  by (simp add: processFile_def isBinary_iff Let_def)

text \<open>
  C4 at an example file with a null byte in its first bytes and at one whose only null
  byte is the 1025th.
\<close>

theorem C4_witness:
  "os_Stat ex_os ''/r/bin.dat'' = Inr 5 \<and> sint (5 :: 64 word) \<le> maxFileSize \<and>
   os_ReadFile ex_os ''/r/bin.dat'' = Inr [CHR ''a'', CHR 0x00, CHR ''b''] \<and>
   isBinary [CHR ''a'', CHR 0x00, CHR ''b''] \<and>
   processFile ex_os ''/r/bin.dat'' ''bin.dat'' True =
     [Stat ''/r/bin.dat'', ReadFile ''/r/bin.dat'', Append \<lparr>Path = ''bin.dat'', Content = []\<rparr>, Send ''bin.dat''] \<and>
   os_Stat ex_os ''/r/late.dat'' = Inr 5 \<and>
   os_ReadFile ex_os ''/r/late.dat'' = Inr (replicate 1024 (CHR ''a'') @ [CHR 0x00]) \<and>
   \<not> isBinary (replicate 1024 (CHR ''a'') @ [CHR 0x00]) \<and>
   processFile ex_os ''/r/late.dat'' ''late.dat'' True =
     [Stat ''/r/late.dat'', ReadFile ''/r/late.dat'',
      Append \<lparr>Path = ''late.dat'', Content = replicate 1024 (CHR ''a'') @ [CHR 0x00]\<rparr>, Send ''late.dat'']"
proof -
  have s1: "os_Stat ex_os ''/r/bin.dat'' = Inr 5" and s2: "os_Stat ex_os ''/r/late.dat'' = Inr 5"
    and sz: "sint (5 :: 64 word) \<le> maxFileSize"
    and r1: "os_ReadFile ex_os ''/r/bin.dat'' = Inr [CHR ''a'', CHR 0x00, CHR ''b'']"
    and r2: "os_ReadFile ex_os ''/r/late.dat'' = Inr (replicate 1024 (CHR ''a'') @ [CHR 0x00])"
    by (simp_all add: ex_os_def maxFileSize_def)
  show ?thesis
    using s1 s2 sz r1 r2
      C4_binary_sample [OF s1 sz r1, of "''bin.dat''"]
      C4_binary_sample [OF s2 sz r2, of "''late.dat''"]
    by simp
qed

text \<open>
  C5. The size limit is strict at 1 MiB. A file whose size at \<^verbatim>\<open>os.Stat\<close> is exactly
  1048576 bytes passes the check: without content its record is appended and notified,
  and with content the same happens once the read succeeds. A file of 1048577 bytes or
  more is skipped whatever the mode: the goroutine logs the skip and does nothing else,
  so it appends no record. In every state of every run, each record of the result set is
  the record of a dispatched file whose size was at most 1 MiB.
\<close>

theorem C5_size_cutoff:
  assumes "os_Stat os path = Inr sz"
    and "(step (goroutine os format) format)\<^sup>*\<^sup>* (listFiles_init err evs) s"
  shows "(sint sz = 1048576 \<longrightarrow>
            processFile os path rel False = [Stat path, Append \<lparr>Path = rel, Content = []\<rparr>, Send rel] \<and>
            (\<forall>content. os_ReadFile os path = Inr content \<longrightarrow>
               processFile os path rel True =
                 [Stat path, ReadFile path,
                  Append \<lparr>Path = rel, Content = (if isBinary content then [] else content)\<rparr>, Send rel])) \<and>
         (1048577 \<le> sint sz \<longrightarrow>
            processFile os path rel readContent = [Stat path, Log (SkippingLargeFile path sz)]) \<and>
         (\<forall>fc \<in> set (files s). \<exists>p sz'. Go p (Path fc) \<in> set evs \<and> os_Stat os p = Inr sz' \<and> sint sz' \<le> 1048576)"
proof (intro conjI impI allI ballI)
  assume "sint sz = 1048576"
  with assms(1) show "processFile os path rel False = [Stat path, Append \<lparr>Path = rel, Content = []\<rparr>, Send rel]"
    by (simp add: processFile_def maxFileSize_def)
next
  fix content assume "sint sz = 1048576" "os_ReadFile os path = Inr content"
  with assms(1) show "processFile os path rel True =
      [Stat path, ReadFile path, Append \<lparr>Path = rel, Content = (if isBinary content then [] else content)\<rparr>, Send rel]"
    by (simp add: processFile_def maxFileSize_def Let_def)
next
  assume "1048577 \<le> sint sz"
  with assms(1) show "processFile os path rel readContent = [Stat path, Log (SkippingLargeFile path sz)]"
    by (simp add: processFile_def maxFileSize_def)
next
  fix fc assume "fc \<in> set (files s)"
  from files_within_limit[OF assms(2) this]
  show "\<exists>p sz'. Go p (Path fc) \<in> set evs \<and> os_Stat os p = Inr sz' \<and> sint sz' \<le> 1048576"
    by (simp add: maxFileSize_def)
qed

text \<open>
  C5 at the example files of exactly 1 MiB and of one byte more, and at the example run.
\<close>

theorem C5_witness:
  "os_Stat ex_os ''/r/max.txt'' = Inr 1048576 \<and> os_Stat ex_os ''/r/big.bin'' = Inr 1048577 \<and>
   (step (goroutine ex_os ''list'') ''list'')\<^sup>*\<^sup>* (listFiles_init None ex_events) ex_final1 \<and>
   processFile ex_os ''/r/max.txt'' ''max.txt'' False =
     [Stat ''/r/max.txt'', Append \<lparr>Path = ''max.txt'', Content = []\<rparr>, Send ''max.txt''] \<and>
   processFile ex_os ''/r/max.txt'' ''max.txt'' True =
     [Stat ''/r/max.txt'', ReadFile ''/r/max.txt'', Append \<lparr>Path = ''max.txt'', Content = ''hello''\<rparr>, Send ''max.txt''] \<and>
   processFile ex_os ''/r/big.bin'' ''big.bin'' True = [Stat ''/r/big.bin'', Log (SkippingLargeFile ''/r/big.bin'' 1048577)] \<and>
   (\<exists>p sz'. Go p ''a.txt'' \<in> set ex_events \<and> os_Stat ex_os p = Inr sz' \<and> sint sz' \<le> 1048576)"
proof -
  have s1: "os_Stat ex_os ''/r/max.txt'' = Inr 1048576" and s2: "os_Stat ex_os ''/r/big.bin'' = Inr 1048577"
    and r: "os_ReadFile ex_os ''/r/max.txt'' = Inr ''hello''" and nb: "\<not> isBinary ''hello''"
    by (simp_all add: ex_os_def isBinary_def)
  have fc: "\<lparr>Path = ''a.txt'', Content = []\<rparr> \<in> set (files ex_final1)" by (simp add: ex_final1_def)
  have z1: "sint (1048576 :: 64 word) = 1048576" and z2: "(1048577::int) \<le> sint (1048577 :: 64 word)" by simp_all
  from C5_size_cutoff [OF s1 ex_steps1, of "''max.txt''" True] z1 r nb fc
  have a: "processFile ex_os ''/r/max.txt'' ''max.txt'' False =
       [Stat ''/r/max.txt'', Append \<lparr>Path = ''max.txt'', Content = []\<rparr>, Send ''max.txt'']"
    and b: "processFile ex_os ''/r/max.txt'' ''max.txt'' True =
       [Stat ''/r/max.txt'', ReadFile ''/r/max.txt'', Append \<lparr>Path = ''max.txt'', Content = ''hello''\<rparr>, Send ''max.txt'']"
    and c: "\<exists>p sz'. Go p ''a.txt'' \<in> set ex_events \<and> os_Stat ex_os p = Inr sz' \<and> sint sz' \<le> 1048576"
    by force+
  from C5_size_cutoff [OF s2 ex_steps1, of "''big.bin''" True] z2
  have d: "processFile ex_os ''/r/big.bin'' ''big.bin'' True = [Stat ''/r/big.bin'', Log (SkippingLargeFile ''/r/big.bin'' 1048577)]"
    by blast
  from s1 s2 ex_steps1 a b c d show ?thesis by blast
qed

text \<open>
  C6 fails as stated: the line of a file in the \<^verbatim>\<open>list\<close> format is a dash, a space and
  the relative path, not the relative path alone.
\<close>

theorem C6_counterexample:
  "main ex_os ''r'' ex_tree ''/r'' ''text'' True [] ex_final1 \<and>
   files ex_final1 = [\<lparr>Path = ''a.txt'', Content = []\<rparr>, \<lparr>Path = ''b.txt'', Content = []\<rparr>] \<and>
   stdout ex_final1 = Some (Printed (''- a.txt'' @ [CHR 0x0A] @ ''- b.txt'' @ [CHR 0x0A])) \<and>
   stdout ex_final1 \<noteq> Some (Printed (''a.txt'' @ [CHR 0x0A] @ ''b.txt'' @ [CHR 0x0A])) \<and>
   outputList [\<lparr>Path = ''a.txt'', Content = []\<rparr>] = Printed (''- a.txt'' @ [CHR 0x0A]) \<and>
   outputList [\<lparr>Path = ''a.txt'', Content = []\<rparr>] \<noteq> Printed (''a.txt'' @ [CHR 0x0A])"
proof -
  have "main ex_os ''r'' ex_tree ''/r'' ''text'' True [] ex_final1"
    by (rule main.started[OF ex_action ex_listFiles1])
  moreover have "files ex_final1 = [\<lparr>Path = ''a.txt'', Content = []\<rparr>, \<lparr>Path = ''b.txt'', Content = []\<rparr>]"
    "stdout ex_final1 = Some (Printed (''- a.txt'' @ [CHR 0x0A] @ ''- b.txt'' @ [CHR 0x0A]))"
    "stdout ex_final1 \<noteq> Some (Printed (''a.txt'' @ [CHR 0x0A] @ ''b.txt'' @ [CHR 0x0A]))"
    by (simp_all add: ex_final1_def)
  moreover have "outputList [\<lparr>Path = ''a.txt'', Content = []\<rparr>] = Printed (''- a.txt'' @ [CHR 0x0A])"
    "outputList [\<lparr>Path = ''a.txt'', Content = []\<rparr>] \<noteq> Printed (''a.txt'' @ [CHR 0x0A])"
    by (simp_all add: outputList_def)
  ultimately show ?thesis by blast
qed

text \<open>
  C6, amended. In a run with \<^verbatim>\<open>--list\<close>, no file content is ever read, every record
  has an empty content, and when the run returns without error its output is, for every
  record of the result set in order, one line made of a dash, a space and the relative
  path.
\<close>

theorem C6_list_format:
  assumes "main os rootName tree directory format True excludePatterns s"
  shows "reads (performed s) = [] \<and>
         (\<forall>fc \<in> set (files s). Content fc = []) \<and>
         (coord s = Returned None \<longrightarrow>
            stdout s = Some (Printed (concat (map (\<lambda>file. ''- '' @ Path file @ [CHR 0x0A]) (files s)))))"
  using assms
proof (cases rule: main.cases)
  case (not_started e)
  then show ?thesis by (simp add: idle_def)
next
  case (started baseDir format' cps)
  from Action_listOnly[OF started(1)] have f: "format' = ''list''" .
  from started(2) show ?thesis
  proof (cases rule: listFiles.cases)
    case (no_matcher e)
    then show ?thesis by (simp add: idle_def)
  next
    case (ran matcher err evs)
    from ran(3) f have st: "(step (goroutine os ''list'') ''list'')\<^sup>*\<^sup>*
        (listFiles_init (map_option (WalkingThePath baseDir) err) evs) s" by simp
    note inv = invariant_reachable[OF st]
    from invariantD(10)[OF inv]
    have "coord s = Returned None \<longrightarrow>
            stdout s = Some (Printed (concat (map (\<lambda>file. ''- '' @ Path file @ [CHR 0x0A]) (files s))))"
      by (simp add: render_def outputList_def)
    with list_run_facts[OF st] show ?thesis by blast
  qed
qed

text \<open>
  C6 (amended) at the example run started with \<^verbatim>\<open>--list\<close>.
\<close>

theorem C6_witness:
  "main ex_os ''r'' ex_tree ''/r'' ''text'' True [] ex_final1 \<and>
   coord ex_final1 = Returned None \<and>
   reads (performed ex_final1) = [] \<and>
   Content \<lparr>Path = ''a.txt'', Content = []\<rparr> = [] \<and>
   stdout ex_final1 = Some (Printed (concat (map (\<lambda>file. ''- '' @ Path file @ [CHR 0x0A]) (files ex_final1))))"
proof -
  have m: "main ex_os ''r'' ex_tree ''/r'' ''text'' True [] ex_final1"
    by (rule main.started[OF ex_action ex_listFiles1])
  have r: "coord ex_final1 = Returned None" by (simp add: ex_final1_def)
  from C6_list_format [OF m] r m show ?thesis by simp
qed

text \<open>
  C7 fails as stated: with \<^verbatim>\<open>--list\<close> the value of \<^verbatim>\<open>--format\<close> is not looked at (the
  check is guarded by \<^verbatim>\<open>!listOnly\<close>). The invocation \<^verbatim>\<open>--list --format xml\<close> on the example
  directory walks the tree, writes the list and ends with exit status 0.
\<close>

theorem C7_counterexample:
  "''xml'' \<notin> {''text'', ''json'', ''list''} \<and>
   main ex_os ''r'' ex_tree ''/r'' ''xml'' True [] ex_final1 \<and>
   coord ex_final1 = Returned None \<and> exit_status ex_final1 = 0 \<and>
   visited ex_final1 = [''/r'', ''/r/a.txt'', ''/r/b.txt'', ''/r/build'', ''/r/gone'', ''/r/out''] \<and>
   stdout ex_final1 = Some (Printed (''- a.txt'' @ [CHR 0x0A] @ ''- b.txt'' @ [CHR 0x0A]))"
proof -
  have "main ex_os ''r'' ex_tree ''/r'' ''xml'' True [] ex_final1"
    by (rule main.started[OF ex_action_xml ex_listFiles1])
  moreover have "coord ex_final1 = Returned None" "exit_status ex_final1 = 0"
    "visited ex_final1 = [''/r'', ''/r/a.txt'', ''/r/b.txt'', ''/r/build'', ''/r/gone'', ''/r/out'']"
    "stdout ex_final1 = Some (Printed (''- a.txt'' @ [CHR 0x0A] @ ''- b.txt'' @ [CHR 0x0A]))"
    by (simp_all add: ex_final1_def exit_status_def)
  moreover have "''xml'' \<notin> {''text'', ''json'', ''list''}" by simp
  ultimately show ?thesis by blast
qed

text \<open>
  C7, amended. For every invocation without \<^verbatim>\<open>--list\<close> whose \<^verbatim>\<open>--format\<close> value is neither
  \<^verbatim>\<open>text\<close> nor \<^verbatim>\<open>json\<close> (the value \<^verbatim>\<open>list\<close> included), the program ends, and it can only end
  with an error and exit status 1 before \<^verbatim>\<open>listFiles\<close> is called: the walk function was never
  called, no goroutine was started, nothing was read and nothing was written to the
  output. With \<^verbatim>\<open>--list\<close> the value of \<^verbatim>\<open>--format\<close> makes no difference to the run.
\<close>

theorem C7_invalid_format_without_list_aborts:
  assumes "format \<noteq> ''text''" and "format \<noteq> ''json''"
  shows "(\<exists>s. main os rootName tree directory format False excludePatterns s) \<and>
         (\<forall>s. main os rootName tree directory format False excludePatterns s \<longrightarrow>
            (coord s = Returned (Some InvalidFormat) \<or> coord s = Returned (Some DirectoryDoesNotExist)) \<and>
            exit_status s = 1 \<and> visited s = [] \<and> workers s = [] \<and> performed s = [] \<and>
            files s = [] \<and> reporter s = NotStarted \<and> stdout s = None) \<and>
         (\<forall>s. main os rootName tree directory format True excludePatterns s =
              main os rootName tree directory ''text'' True excludePatterns s)"
proof (intro conjI)
  note a = Action_without_list_invalid[OF assms, of os directory excludePatterns]
  from main.not_started[OF a]
  show "\<exists>s. main os rootName tree directory format False excludePatterns s" by blast
  show "\<forall>s. main os rootName tree directory format False excludePatterns s \<longrightarrow>
            (coord s = Returned (Some InvalidFormat) \<or> coord s = Returned (Some DirectoryDoesNotExist)) \<and>
            exit_status s = 1 \<and> visited s = [] \<and> workers s = [] \<and> performed s = [] \<and>
            files s = [] \<and> reporter s = NotStarted \<and> stdout s = None"
  proof (intro allI impI)
    fix s assume m: "main os rootName tree directory format False excludePatterns s"
    from m have s: "s = idle\<lparr>coord := Returned (Some (if os_Stat_IsNotExist os directory then DirectoryDoesNotExist else InvalidFormat))\<rparr>"
    proof (cases rule: main.cases)
      case (not_started e)
      with a show ?thesis by simp
    next
      case (started baseDir format' cps)
      with a show ?thesis by simp
    qed
    then show "(coord s = Returned (Some InvalidFormat) \<or> coord s = Returned (Some DirectoryDoesNotExist)) \<and>
            exit_status s = 1 \<and> visited s = [] \<and> workers s = [] \<and> performed s = [] \<and>
            files s = [] \<and> reporter s = NotStarted \<and> stdout s = None"
      by (simp add: idle_def exit_status_def)
  qed
  show "\<forall>s. main os rootName tree directory format True excludePatterns s =
              main os rootName tree directory ''text'' True excludePatterns s"
  proof
    fix s
    show "main os rootName tree directory format True excludePatterns s =
          main os rootName tree directory ''text'' True excludePatterns s"
      using main_list_ignores_format[of os rootName tree directory format excludePatterns s "''text''"]
        main_list_ignores_format[of os rootName tree directory "''text''" excludePatterns s format]
      by (rule iffI)
  qed
qed

text \<open>
  C7 (amended) at \<^verbatim>\<open>--format xml\<close> and \<^verbatim>\<open>--format list\<close> without \<^verbatim>\<open>--list\<close>, and at
  \<^verbatim>\<open>--list --format xml\<close>, on the example directory.
\<close>

theorem C7_witness:
  "''xml'' \<noteq> ''text'' \<and> ''xml'' \<noteq> ''json'' \<and> ''list'' \<noteq> ''text'' \<and> ''list'' \<noteq> ''json'' \<and>
   main ex_os ''r'' ex_tree ''/r'' ''xml'' False [] (idle\<lparr>coord := Returned (Some InvalidFormat)\<rparr>) \<and>
   main ex_os ''r'' ex_tree ''/r'' ''list'' False [] (idle\<lparr>coord := Returned (Some InvalidFormat)\<rparr>) \<and>
   exit_status (idle\<lparr>coord := Returned (Some InvalidFormat)\<rparr>) = 1 \<and>
   visited (idle\<lparr>coord := Returned (Some InvalidFormat)\<rparr>) = [] \<and>
   workers (idle\<lparr>coord := Returned (Some InvalidFormat)\<rparr>) = [] \<and>
   stdout (idle\<lparr>coord := Returned (Some InvalidFormat)\<rparr>) = None \<and>
   main ex_os ''r'' ex_tree ''/r'' ''xml'' True [] ex_final1"
proof -
  have h: "''xml'' \<noteq> ''text''" "''xml'' \<noteq> ''json''" and h': "''list'' \<noteq> ''text''" "''list'' \<noteq> ''json''"
    by simp_all
  have a: "Action ex_os ''/r'' ''xml'' False [] = Inl InvalidFormat"
    and a': "Action ex_os ''/r'' ''list'' False [] = Inl InvalidFormat"
    by (simp_all add: Action_def ex_os_def)
  have m: "main ex_os ''r'' ex_tree ''/r'' ''xml'' False [] (idle\<lparr>coord := Returned (Some InvalidFormat)\<rparr>)"
    by (rule main.not_started[OF a])
  have m': "main ex_os ''r'' ex_tree ''/r'' ''list'' False [] (idle\<lparr>coord := Returned (Some InvalidFormat)\<rparr>)"
    by (rule main.not_started[OF a'])
  have t: "main ex_os ''r'' ex_tree ''/r'' ''text'' True [] ex_final1"
    by (rule main.started[OF ex_action ex_listFiles1])
  note T = C7_invalid_format_without_list_aborts [OF h, of ex_os "''r''" ex_tree "''/r''" "[]"]
  note ab = T[THEN conjunct2, THEN conjunct1, rule_format, OF m]
  from T[THEN conjunct2, THEN conjunct2, rule_format, of ex_final1] t
  have x: "main ex_os ''r'' ex_tree ''/r'' ''xml'' True [] ex_final1" by simp
  from ab have "exit_status (idle\<lparr>coord := Returned (Some InvalidFormat)\<rparr>) = 1"
    "visited (idle\<lparr>coord := Returned (Some InvalidFormat)\<rparr>) = []"
    "workers (idle\<lparr>coord := Returned (Some InvalidFormat)\<rparr>) = []"
    "stdout (idle\<lparr>coord := Returned (Some InvalidFormat)\<rparr>) = None"
    by simp_all
  with h h' m m' x show ?thesis by simp
qed

text \<open>
  C8. Let a walk complete and dispatch a file whose stat fails, whose size is over
  the limit, or whose read fails. Then the run still ends, and however it is scheduled it
  ends with \<^verbatim>\<open>listFiles\<close> returning no error (exit status 0) and the output rendered from
  the result set; the file's goroutine logs exactly one line, which the run has performed,
  and appends nothing; the result set holds exactly the records of the other goroutines.
\<close>

theorem C8_per_file_failures_recoverable:
  assumes "openMatcher os baseDir = Inr matcher"
    and "listFiles_walk os cps matcher rootName tree baseDir = (None, evs)"
    and "Go path rel \<in> set evs"
    and "skipped os path (format \<noteq> ''list'')"
  shows "(\<exists>s. listFiles os cps rootName tree baseDir format s) \<and>
         (\<forall>s. listFiles os cps rootName tree baseDir format s \<longrightarrow>
            coord s = Returned None \<and> exit_status s = 0 \<and>
            stdout s = Some (render format (files s)) \<and>
            (\<exists>m. logged (goroutine os format path rel) = [m] \<and> Log m \<in> set (performed s)) \<and>
            appends (goroutine os format path rel) = [] \<and>
            mset (files s) = mset (appends (concat (started_bodies (goroutine os format) evs))))"
proof (intro conjI allI impI)
  show "\<exists>s. listFiles os cps rootName tree baseDir format s"
    by (rule listFiles_exists[OF assms(1)])
next
  fix s assume run: "listFiles os cps rootName tree baseDir format s"
  from listFiles_ran[OF run assms(1,2)]
  have st: "(step (goroutine os format) format)\<^sup>*\<^sup>* (listFiles_init None evs) s" and nr: "\<not> running (coord s)"
    by simp_all
  note inv = invariant_reachable[OF st]
  from returned_value[OF inv nr] show r: "coord s = Returned None" .
  then show "exit_status s = 0" by (simp add: exit_status_def)
  from invariantD(10)[OF inv r] show "stdout s = Some (render format (files s))" by simp
  from processFile_skipped[OF assms(4), of rel]
  obtain m where m: "logged (goroutine os format path rel) = [m]"
    and ap: "appends (goroutine os format path rel) = []"
    by (auto simp: goroutine_def)
  from ap show "appends (goroutine os format path rel) = []" .
  from m have "m \<in> set (logged (goroutine os format path rel))" by simp
  from mset_logged_bodies[where body = "goroutine os format", OF assms(3) this]
  have "m \<in># mset (logged (concat (started_bodies (goroutine os format) evs)))" by simp
  with mset_logged_cong[OF returned_accounting(1)[OF inv r]] have "m \<in> set (logged (performed s))"
    by (metis set_mset_mset)
  moreover have "\<And>xs. m \<in> set (logged xs) \<longleftrightarrow> Log m \<in> set xs"
  proof -
    fix xs show "m \<in> set (logged xs) \<longleftrightarrow> Log m \<in> set xs"
      by (induction xs rule: logged.induct) auto
  qed
  ultimately have "Log m \<in> set (performed s)" by simp
  with m show "\<exists>m. logged (goroutine os format path rel) = [m] \<and> Log m \<in> set (performed s)" by blast
  from returned_accounting(3)[OF inv r]
  show "mset (files s) = mset (appends (concat (started_bodies (goroutine os format) evs)))" .
qed

text \<open>
  C8 at the example file whose stat fails, in the example run.
\<close>

theorem C8_witness:
  "openMatcher ex_os ''/r'' = Inr no_match \<and>
   listFiles_walk ex_os [] no_match ''r'' ex_tree ''/r'' = (None, ex_events) \<and>
   Go ''/r/gone'' ''gone'' \<in> set ex_events \<and>
   skipped ex_os ''/r/gone'' (''list'' \<noteq> ''list'') \<and>
   listFiles ex_os [] ''r'' ex_tree ''/r'' ''list'' ex_final1 \<and>
   coord ex_final1 = Returned None \<and> exit_status ex_final1 = 0 \<and>
   stdout ex_final1 = Some (render ''list'' (files ex_final1)) \<and>
   (\<exists>m. logged (goroutine ex_os ''list'' ''/r/gone'' ''gone'') = [m] \<and> Log m \<in> set (performed ex_final1)) \<and>
   appends (goroutine ex_os ''list'' ''/r/gone'' ''gone'') = []"
proof -
  have g: "Go ''/r/gone'' ''gone'' \<in> set ex_events" by (simp add: ex_events_def)
  have k: "skipped ex_os ''/r/gone'' (''list'' \<noteq> ''list'')" by (simp add: skipped_def ex_os_def)
  from C8_per_file_failures_recoverable [OF ex_openMatcher' ex_walk g k] ex_listFiles1
  have "coord ex_final1 = Returned None \<and> exit_status ex_final1 = 0 \<and>
        stdout ex_final1 = Some (render ''list'' (files ex_final1)) \<and>
        (\<exists>m. logged (goroutine ex_os ''list'' ''/r/gone'' ''gone'') = [m] \<and> Log m \<in> set (performed ex_final1)) \<and>
        appends (goroutine ex_os ''list'' ''/r/gone'' ''gone'') = []"
    by blast
  with ex_openMatcher' ex_walk g k ex_listFiles1 show ?thesis by blast
qed

text \<open>
  C9. Two runs of \<^verbatim>\<open>listFiles\<close> with the same parameters on the same unmodified world
  return the same error or both none; when they return none their result sets hold the
  same records with the same multiplicities (hence the same set), each rendered to the
  output in its own order; when they return an error neither writes output.
\<close>

theorem C9_same_set_of_records:
  assumes "listFiles os cps rootName tree baseDir format s1"
    and "listFiles os cps rootName tree baseDir format s2"
  shows "coord s1 = coord s2 \<and>
         (coord s1 = Returned None \<longrightarrow>
            mset (files s1) = mset (files s2) \<and> set (files s1) = set (files s2) \<and>
            stdout s1 = Some (render format (files s1)) \<and> stdout s2 = Some (render format (files s2))) \<and>
         (coord s1 \<noteq> Returned None \<longrightarrow> stdout s1 = None \<and> stdout s2 = None)"
proof (cases "openMatcher os baseDir")
  case (Inl e)
  with assms have "s1 = idle\<lparr>coord := Returned (Some e)\<rparr>" "s2 = idle\<lparr>coord := Returned (Some e)\<rparr>"
    by (auto elim!: listFiles.cases)
  then show ?thesis by (simp add: idle_def)
next
  case (Inr matcher)
  obtain err evs where w: "listFiles_walk os cps matcher rootName tree baseDir = (err, evs)"
    by (cases "listFiles_walk os cps matcher rootName tree baseDir")
  let ?err = "map_option (WalkingThePath baseDir) err"
  from listFiles_ran[OF assms(1) Inr w] listFiles_ran[OF assms(2) Inr w]
  have st: "(step (goroutine os format) format)\<^sup>*\<^sup>* (listFiles_init ?err evs) s1"
      "(step (goroutine os format) format)\<^sup>*\<^sup>* (listFiles_init ?err evs) s2"
    and nr: "\<not> running (coord s1)" "\<not> running (coord s2)" by simp_all
  note inv1 = invariant_reachable[OF st(1)] and inv2 = invariant_reachable[OF st(2)]
  from returned_value[OF inv1 nr(1)] returned_value[OF inv2 nr(2)]
  have c: "coord s1 = Returned ?err" "coord s2 = Returned ?err" by simp_all
  show ?thesis
  proof (cases "?err")
    case None
    with c have r: "coord s1 = Returned None" "coord s2 = Returned None" by simp_all
    from returned_accounting(3)[OF inv1 r(1)] returned_accounting(3)[OF inv2 r(2)]
    have m: "mset (files s1) = mset (files s2)" by simp
    then have "set (files s1) = set (files s2)" by (rule mset_eq_setD)
    with m r invariantD(10)[OF inv1 r(1)] invariantD(10)[OF inv2 r(2)] show ?thesis by simp
  next
    case (Some e)
    with c have r: "coord s1 = Returned (Some e)" "coord s2 = Returned (Some e)" by simp_all
    with invariantD(11)[OF inv1] invariantD(11)[OF inv2] show ?thesis by simp
  qed
qed

text \<open>
  C9 at two schedules of the example run: the same records in different orders.
\<close>

theorem C9_witness:
  "listFiles ex_os [] ''r'' ex_tree ''/r'' ''list'' ex_final1 \<and>
   listFiles ex_os [] ''r'' ex_tree ''/r'' ''list'' ex_final2 \<and>
   coord ex_final1 = Returned None \<and> coord ex_final2 = Returned None \<and>
   files ex_final1 \<noteq> files ex_final2 \<and>
   mset (files ex_final1) = mset (files ex_final2) \<and> set (files ex_final1) = set (files ex_final2) \<and>
   stdout ex_final1 = Some (render ''list'' (files ex_final1)) \<and>
   stdout ex_final2 = Some (render ''list'' (files ex_final2))"
proof -
  have r: "coord ex_final1 = Returned None" "coord ex_final2 = Returned None"
    and d: "files ex_final1 \<noteq> files ex_final2"
    by (simp_all add: ex_final1_def ex_final2_def)
  from C9_same_set_of_records [OF ex_listFiles1 ex_listFiles2] r d ex_listFiles1 ex_listFiles2
  show ?thesis by simp
qed

text \<open>
  C10. An entry whose base name is one of the built-in excluded directory names is
  excluded by \<^verbatim>\<open>shouldExclude\<close> whatever its relative path and also when it is a file, not
  a directory: the walk function starts no goroutine for such a file at any path, and the
  file is not among the surviving files of a walk.
\<close>

theorem C10_file_named_like_excluded_dir:
  "name \<in> set excludedDirs \<Longrightarrow>
     shouldExclude customExcludePatterns matcher name relativePath \<and>
     spawned (snd (walk (walkFn os customExcludePatterns matcher baseDir) join path name File)) = [] \<and>
     survivors os customExcludePatterns matcher baseDir
       [\<lparr>e_path = path, e_name = name, e_file = True, e_pruned = False\<rparr>] = []"
  by (auto simp: in_excludedDirs_shouldExclude call_def walkFn_def survivors_def excluded_def
           split: sum.splits)

text \<open>
  C10 at the example file named \<^verbatim>\<open>out\<close>: excluded, not dispatched, not in the result set.
\<close>

theorem C10_witness:
  "''out'' \<in> set excludedDirs \<and>
   shouldExclude [] no_match ''out'' ''out'' \<and>
   spawned (snd (walk (walkFn ex_os [] no_match ''/r'') (filepath_Join ex_os) ''/r/out'' ''out'' File)) = [] \<and>
   survivors ex_os [] no_match ''/r'' [\<lparr>e_path = ''/r/out'', e_name = ''out'', e_file = True, e_pruned = False\<rparr>] = [] \<and>
   (''/r/out'', ''out'') \<notin> set (spawned ex_events) \<and> ''out'' \<notin> Path ` set (files ex_final1)"
proof -
  have h: "''out'' \<in> set excludedDirs" by (simp add: excludedDirs_def)
  have "(''/r/out'', ''out'') \<notin> set (spawned ex_events)" by (simp add: ex_events_def)
  moreover have "''out'' \<notin> Path ` set (files ex_final1)" by (simp add: ex_final1_def)
  ultimately show ?thesis
    using h C10_file_named_like_excluded_dir [OF h, of "[]" no_match "''out''" ex_os "''/r''" "filepath_Join ex_os" "''/r/out''"]
    by simp
qed

end
